theory Spec2Isabelle
  imports Main "HOL-Library.Word"
begin

section \<open>Miner extra data (makeExtraData)\<close>

type_synonym byte = "8 word"

text \<open>
  \<^verbatim>\<open>makeExtraData\<close> of the full-node service. The constant
  \<^verbatim>\<open>params.MaximumExtraDataSize\<close> and the result of
  \<^verbatim>\<open>rlp.EncodeToBytes\<close> on the version/client list (which depends on
  \<^verbatim>\<open>runtime.Version()\<close> and \<^verbatim>\<open>runtime.GOOS\<close>) live outside the
  modelled sources and are parameters. The two \<^verbatim>\<open>if\<close>s run one after the other,
  so the size check also applies to the default.
\<close>

definition makeExtraData :: "nat \<Rightarrow> byte list \<Rightarrow> byte list \<Rightarrow> byte list" where
  "makeExtraData MaximumExtraDataSize defaultExtra extra =
     (let extra1 = (if length extra = 0 then defaultExtra else extra);
          extra2 = (if length extra1 > MaximumExtraDataSize then [] else extra1)
      in extra2)"

section \<open>The full-node service\<close>

subsection \<open>Chain configuration, sync modes and the chain database\<close>

type_synonym Hash = "byte list"

record ChainConfig =
  ChainID :: int
  EIP155Block :: "int option"


text \<open>
  Modelled from the spec: \<^verbatim>\<open>downloader.SyncMode\<close>, its constants and \<^verbatim>\<open>IsValid\<close>
  are not among the sources. The spec enumerates \<^verbatim>\<open>sync-mode \<in> {full,fast,light}\<close>; the
  source prints a mode with \<^verbatim>\<open>%d\<close>, so a mode is an integer and the three names are
  consecutive constants.
\<close>

type_synonym SyncMode = int

definition FullSync :: SyncMode where "FullSync = 0"
definition FastSync :: SyncMode where "FastSync = 1"
definition LightSync :: SyncMode where "LightSync = 2"

definition IsValid :: "SyncMode \<Rightarrow> bool" where
  "IsValid mode \<longleftrightarrow> FullSync \<le> mode \<and> mode \<le> LightSync"

text \<open>
  The chain database, as far as the service reads and writes it: the stored database
  version, the chain configurations by genesis hash, the canonical number index, the stored
  headers, bodies and receipts (each by block number and hash) and the number of the head
  block.
\<close>

record chain_store =
  databaseVersion :: "nat option"
  chainConfigs :: "Hash \<rightharpoonup> ChainConfig"
  canonical :: "(nat \<times> Hash) list"
  headers :: "(nat \<times> Hash) list"
  bodies :: "(nat \<times> Hash) list"
  receipts :: "(nat \<times> Hash) list"
  headNumber :: nat

definition ReadDatabaseVersion :: "chain_store \<Rightarrow> nat option" where
  "ReadDatabaseVersion db = databaseVersion db"

definition WriteDatabaseVersion :: "chain_store \<Rightarrow> nat \<Rightarrow> chain_store" where
  "WriteDatabaseVersion db v = db\<lparr>databaseVersion := Some v\<rparr>"

definition WriteChainConfig :: "chain_store \<Rightarrow> Hash \<Rightarrow> ChainConfig \<Rightarrow> chain_store" where
  "WriteChainConfig db h cfg = db\<lparr>chainConfigs := (chainConfigs db)(h \<mapsto> cfg)\<rparr>"

text \<open>
  Modelled from the spec: \<^verbatim>\<open>BlockChain.SetHead\<close> is not among the sources. The spec:
  "SetHead(n): rewinds canonical index to n, drops newer headers/bodies/receipts". Entries
  numbered above \<open>n\<close> are dropped; a head already at or below \<open>n\<close> stays.
\<close>

definition upto_number :: "nat \<Rightarrow> (nat \<times> Hash) list \<Rightarrow> (nat \<times> Hash) list" where
  "upto_number n xs = filter (\<lambda>(num, h). num \<le> n) xs"

definition BlockChain_SetHead :: "nat \<Rightarrow> chain_store \<Rightarrow> chain_store" where
  "BlockChain_SetHead n db =
     db\<lparr>canonical := upto_number n (canonical db),
        headers := upto_number n (headers db),
        bodies := upto_number n (bodies db),
        receipts := upto_number n (receipts db),
        headNumber := min n (headNumber db)\<rparr>"

subsection \<open>Errors, configuration and collaborators\<close>

text \<open>
  The errors \<^verbatim>\<open>New\<close> builds itself (light sync mode, invalid sync mode, database
  version above the supported one) and the errors it passes on from a collaborator, which
  carry that collaborator's message.
\<close>

datatype error =
    ErrLightSync
  | ErrInvalidSyncMode int
  | ErrDatabaseVersion nat nat
  | ErrCollaborator string

text \<open>
  The error of the genesis set-up: a \<^verbatim>\<open>*params.ConfigCompatError\<close> with its
  \<^verbatim>\<open>RewindTo\<close> block number, or any other error.
\<close>

datatype genesis_error =
    ConfigCompatError (RewindTo: nat)
  | GenesisError string

text \<open>The fields of \<^verbatim>\<open>Config\<close> that \<^verbatim>\<open>New\<close> reads.\<close>

record Config =
  NetworkId :: nat
  SyncMode :: SyncMode
  NoPruning :: bool
  SkipBcVersionCheck :: bool
  TrieCleanCache :: int
  TrieDirtyCache :: int
  Miner_GasPrice :: "int option"
  Miner_ExtraData :: "byte list"
  GPO_Default :: "int option"

text \<open>
  \<^verbatim>\<open>DefaultConfig\<close>, for the fields above; the argument is the constant
  \<^verbatim>\<open>params.GWei\<close>.
\<close>

definition DefaultConfig :: "int \<Rightarrow> Config" where
  "DefaultConfig GWei =
     \<lparr>NetworkId = 1, SyncMode = FastSync, NoPruning = False, SkipBcVersionCheck = False,
      TrieCleanCache = 256, TrieDirtyCache = 256, Miner_GasPrice = Some GWei,
      Miner_ExtraData = [], GPO_Default = None\<rparr>"

text \<open>
  What the constructors and constants outside the modelled sources hand to \<^verbatim>\<open>New\<close>:
  the constants \<^verbatim>\<open>core.BlockChainVersion\<close>, \<^verbatim>\<open>params.MaximumExtraDataSize\<close> and
  \<^verbatim>\<open>DefaultConfig.Miner.GasPrice\<close>, the default extra data encoding, the database
  opened by \<^verbatim>\<open>OpenDatabaseWithFreezer\<close> (or its error), the three results of
  \<^verbatim>\<open>core.SetupGenesisBlock\<close>, and the errors of \<^verbatim>\<open>core.NewBlockChain\<close> and
  \<^verbatim>\<open>NewProtocolManager\<close> (\<open>None\<close> for \<^verbatim>\<open>nil\<close>).
\<close>

record environment =
  BlockChainVersion :: nat
  MaximumExtraDataSize :: nat
  defaultExtraData :: "byte list"
  DefaultGasPrice :: int
  OpenDatabaseWithFreezer :: "string + chain_store"
  SetupGenesisBlock :: "ChainConfig \<times> Hash \<times> genesis_error option"
  NewBlockChain :: "string option"
  NewProtocolManager :: "string option"

text \<open>
  Calls into components whose effect is not modelled further are recorded, in order, in
  the service's call log.
\<close>

datatype call =
    BloomIndexer_Start
  | BloomIndexer_Close
  | BlockChain_Stop
  | BlockChain_Sbtpead nat
  | Engine_Close
  | ProtocolManager_Stop
  | LesServer_Stop
  | TxPool_Stop
  | Miner_Stop
  | Miner_SetExtra "byte list"
  | EventMux_Stop
  | ChainDb_Close
  | ShutdownChan_Close
  | Downloader_Cancel
  | Rawdb_WriteDatabaseVersion nat
  | Rawdb_WriteChainConfig Hash

record btpereum =
  config :: Config
  chainDb :: chain_store
  chainConfig :: ChainConfig
  lesServer :: bool
  inflight :: "nat list"
  gasPrice :: "int option"
  networkID :: nat
  gpoDefault :: "int option"
  calls :: "call list"

definition invoke :: "call \<Rightarrow> btpereum \<Rightarrow> btpereum" where
  "invoke c s = s\<lparr>calls := calls s @ [c]\<rparr>"

subsection \<open>Construction\<close>

text \<open>The writes of \<^verbatim>\<open>New\<close> to the database and its rewind, each with its log entry.\<close>

definition rawdb_WriteDatabaseVersion :: "nat \<Rightarrow> btpereum \<Rightarrow> btpereum" where
  "rawdb_WriteDatabaseVersion v s =
     invoke (Rawdb_WriteDatabaseVersion v) (s\<lparr>chainDb := WriteDatabaseVersion (chainDb s) v\<rparr>)"

definition rawdb_WriteChainConfig :: "Hash \<Rightarrow> ChainConfig \<Rightarrow> btpereum \<Rightarrow> btpereum" where
  "rawdb_WriteChainConfig h cfg s =
     invoke (Rawdb_WriteChainConfig h) (s\<lparr>chainDb := WriteChainConfig (chainDb s) h cfg\<rparr>)"

definition blockchain_Sbtpead :: "nat \<Rightarrow> btpereum \<Rightarrow> btpereum" where
  "blockchain_Sbtpead n s =
     invoke (BlockChain_Sbtpead n) (s\<lparr>chainDb := BlockChain_SetHead n (chainDb s)\<rparr>)"

text \<open>
  The sanitising at the head of \<^verbatim>\<open>New\<close>: a missing or non-positive miner gas price
  becomes the default one; without pruning, the dirty trie cache allowance moves to the
  clean cache.
\<close>

definition sanitize :: "environment \<Rightarrow> Config \<Rightarrow> Config" where
  "sanitize env config0 =
     (let config1 =
            (if Miner_GasPrice config0 = None \<or> the (Miner_GasPrice config0) \<le> 0
             then config0\<lparr>Miner_GasPrice := Some (DefaultGasPrice env)\<rparr> else config0)
      in (if NoPruning config1 \<and> TrieDirtyCache config1 > 0
          then config1\<lparr>TrieCleanCache := TrieCleanCache config1 + TrieDirtyCache config1,
                      TrieDirtyCache := 0\<rparr>
          else config1))"

text \<open>
  The database version check of \<^verbatim>\<open>New\<close> (\<^verbatim>\<open>if !config.SkipBcVersionCheck\<close>): a
  stored version above the supported one returns an error; a missing or lower one is
  overwritten with the supported version; an equal one is left alone.
\<close>

definition checkBcVersion :: "environment \<Rightarrow> btpereum \<Rightarrow> error + btpereum" where
  "checkBcVersion env s =
     (let bcVersion = ReadDatabaseVersion (chainDb s) in
      if \<not> SkipBcVersionCheck (config s) then
        (if bcVersion \<noteq> None \<and> the bcVersion > BlockChainVersion env
         then Inl (ErrDatabaseVersion (the bcVersion) (BlockChainVersion env))
         else if bcVersion = None \<or> the bcVersion < BlockChainVersion env
         then Inr (rawdb_WriteDatabaseVersion (BlockChainVersion env) s)
         else Inr s)
      else Inr s)"

text \<open>
  The rewind of \<^verbatim>\<open>New\<close> after \<^verbatim>\<open>NewBlockChain\<close>: when the genesis set-up reported
  a \<^verbatim>\<open>ConfigCompatError\<close>, the chain head is set to its \<^verbatim>\<open>RewindTo\<close> and the new
  chain configuration is written under the genesis hash.
\<close>

definition rewindOnCompat ::
  "genesis_error option \<Rightarrow> Hash \<Rightarrow> ChainConfig \<Rightarrow> btpereum \<Rightarrow> btpereum" where
  "rewindOnCompat genesisErr genesisHash cfg s =
     (case genesisErr of
        Some (ConfigCompatError rewindTo) \<Rightarrow>
          rawdb_WriteChainConfig genesisHash cfg (blockchain_Sbtpead rewindTo s)
      | Some (GenesisError err) \<Rightarrow> s
      | None \<Rightarrow> s)"

text \<open>
  The tail of \<^verbatim>\<open>New\<close> once the protocol manager exists: the miner receives the extra
  data, and the gas price oracle's default falls back to the miner's gas price.
\<close>

definition finishNew :: "environment \<Rightarrow> btpereum \<Rightarrow> btpereum" where
  "finishNew env s =
     (invoke (Miner_SetExtra
                (makeExtraData (MaximumExtraDataSize env) (defaultExtraData env)
                   (Miner_ExtraData (config s)))) s)
       \<lparr>gpoDefault := (if GPO_Default (config s) = None then Miner_GasPrice (config s)
                       else GPO_Default (config s))\<rparr>"

text \<open>
  The service object \<^verbatim>\<open>New\<close> assembles (\<^verbatim>\<open>btp := &btpereum{...}\<close>): no LES
  server yet, nothing in flight, an empty call log.
\<close>

definition assemble :: "Config \<Rightarrow> chain_store \<Rightarrow> ChainConfig \<Rightarrow> btpereum" where
  "assemble cfg db chainCfg =
     \<lparr>config = cfg, chainDb = db, chainConfig = chainCfg, lesServer = False, inflight = [],
      gasPrice = Miner_GasPrice cfg, networkID = NetworkId cfg, gpoDefault = None,
      calls = []\<rparr>"

text \<open>
  \<^verbatim>\<open>New\<close>, top to bottom: the sync mode checks, the sanitising, the opening of the
  database, the genesis set-up (only an error other than a \<^verbatim>\<open>ConfigCompatError\<close>
  returns), the database version check, the construction of the blockchain, the rewind
  after an incompatible configuration, the start of the bloom indexer, the protocol manager
  and the miner's extra data.
\<close>

definition New :: "environment \<Rightarrow> Config \<Rightarrow> error + btpereum" where
  "New env config0 =
    (if SyncMode config0 = LightSync then Inl ErrLightSync
     else if \<not> IsValid (SyncMode config0) then Inl (ErrInvalidSyncMode (SyncMode config0))
     else
      (case OpenDatabaseWithFreezer env of
         Inl err \<Rightarrow> Inl (ErrCollaborator err)
       | Inr chainDb0 \<Rightarrow>
          (case SetupGenesisBlock env of
             (chainConfig0, genesisHash, genesisErr) \<Rightarrow>
               (case genesisErr of
                  Some (GenesisError err) \<Rightarrow> Inl (ErrCollaborator err)
                | _ \<Rightarrow>
                   (case checkBcVersion env
                           (assemble (sanitize env config0) chainDb0 chainConfig0) of
                      Inl err \<Rightarrow> Inl err
                    | Inr btp1 \<Rightarrow>
                       (case NewBlockChain env of
                          Some err \<Rightarrow> Inl (ErrCollaborator err)
                        | None \<Rightarrow>
                           (case NewProtocolManager env of
                              Some err \<Rightarrow> Inl (ErrCollaborator err)
                            | None \<Rightarrow>
                               Inr (finishNew env
                                      (invoke BloomIndexer_Start
                                         (rewindOnCompat genesisErr genesisHash chainConfig0
                                            btp1))))))))))"

subsection \<open>Shutdown\<close>

text \<open>
  \<^verbatim>\<open>Stop\<close>: the calls of the source in their order; the LES server is stopped only when
  one was added. The source always returns \<^verbatim>\<open>nil\<close>.
\<close>

definition Stop :: "btpereum \<Rightarrow> btpereum" where
  "Stop s0 =
     (let s1 = invoke BloomIndexer_Close s0;
          s2 = invoke BlockChain_Stop s1;
          s3 = invoke Engine_Close s2;
          s4 = invoke ProtocolManager_Stop s3;
          s5 = (if lesServer s4 then invoke LesServer_Stop s4 else s4);
          s6 = invoke TxPool_Stop s5;
          s7 = invoke Miner_Stop s6;
          s8 = invoke EventMux_Stop s7;
          s9 = invoke ChainDb_Close s8
      in invoke ShutdownChan_Close s9)"

text \<open>
  The shutdown sequence in the spec's words: stop accepting peers, (cancel sync,) drain the
  TxPool journal, stop the miner, close the BlockChain, close the ChainStore. In the source,
  accepting peers and the sync both end inside \<^verbatim>\<open>protocolManager.Stop\<close>.
\<close>

definition spec_shutdown_order :: "call list" where
  "spec_shutdown_order =
     [ProtocolManager_Stop, TxPool_Stop, Miner_Stop, BlockChain_Stop, ChainDb_Close]"

text \<open>\<open>in_order cs log\<close>: the calls \<open>cs\<close> occur in \<open>log\<close>, one after the other.\<close>

fun in_order :: "call list \<Rightarrow> call list \<Rightarrow> bool" where
  "in_order [] log = True"
| "in_order (c # cs) [] = False"
| "in_order (c # cs) (x # log) = (if c = x then in_order cs log else in_order (c # cs) log)"

subsection \<open>The API backend and the public API\<close>

text \<open>
  Modelled from the spec: \<^verbatim>\<open>Downloader.Cancel\<close> is not among the sources. The spec:
  "a global sync token cancels all in-flight requests on head change or user request".
\<close>

definition downloader_Cancel :: "btpereum \<Rightarrow> btpereum" where
  "downloader_Cancel s = invoke Downloader_Cancel (s\<lparr>inflight := []\<rparr>)"

text \<open>\<^verbatim>\<open>btpAPIBackend.Sbtpead\<close>: cancel the downloader, then set the head.\<close>

definition Sbtpead :: "nat \<Rightarrow> btpereum \<Rightarrow> btpereum" where
  "Sbtpead number' b =
     (let b1 = downloader_Cancel b;
          b2 = blockchain_Sbtpead number' b1
      in b2)"



subsection \<open>Outcome of the remaining construction steps, and sample values\<close>

text \<open>
  \<open>remaining_steps_succeed env c\<close>: every step of \<^verbatim>\<open>New\<close> after the sync mode
  checks goes through: the database opens, the genesis set-up reports at most a
  \<^verbatim>\<open>ConfigCompatError\<close>, the stored database version is not above the supported one
  (or the check is skipped), and the blockchain and the protocol manager are constructed.
\<close>

definition remaining_steps_succeed :: "environment \<Rightarrow> Config \<Rightarrow> bool" where
  "remaining_steps_succeed env c =
     (case OpenDatabaseWithFreezer env of
        Inl err \<Rightarrow> False
      | Inr db \<Rightarrow>
          (case snd (snd (SetupGenesisBlock env)) of
             Some (GenesisError err) \<Rightarrow> False
           | Some (ConfigCompatError n) \<Rightarrow>
              (SkipBcVersionCheck c \<or>
                 (case databaseVersion db of None \<Rightarrow> True
                  | Some v \<Rightarrow> v \<le> BlockChainVersion env))
              \<and> NewBlockChain env = None \<and> NewProtocolManager env = None
           | None \<Rightarrow>
              (SkipBcVersionCheck c \<or>
                 (case databaseVersion db of None \<Rightarrow> True
                  | Some v \<Rightarrow> v \<le> BlockChainVersion env))
              \<and> NewBlockChain env = None \<and> NewProtocolManager env = None))"

text \<open>
  A database holding the blocks 0 to 3 under version 7, and an environment in which every
  collaborator succeeds on it: version 8 is supported, the extra data cap is 32, EIP-155
  is active from block 2 on chain 1.
\<close>

definition sample_store :: chain_store where
  "sample_store =
     \<lparr>databaseVersion = Some 7, chainConfigs = Map.empty,
      canonical = [(0, replicate 32 0), (1, replicate 32 1), (2, replicate 32 2),
                   (3, replicate 32 3)],
      headers = [(0, replicate 32 0), (1, replicate 32 1), (2, replicate 32 2),
                 (3, replicate 32 3)],
      bodies = [(0, replicate 32 0), (1, replicate 32 1), (2, replicate 32 2),
                (3, replicate 32 3)],
      receipts = [(1, replicate 32 1), (2, replicate 32 2), (3, replicate 32 3)],
      headNumber = 3\<rparr>"

definition sample_chain_config :: ChainConfig where
  "sample_chain_config = \<lparr>ChainID = 1, EIP155Block = Some 2\<rparr>"

definition sample_environment :: environment where
  "sample_environment =
     \<lparr>BlockChainVersion = 8, MaximumExtraDataSize = 32, defaultExtraData = [0xc0],
      DefaultGasPrice = 1000000000,
      OpenDatabaseWithFreezer = Inr sample_store,
      SetupGenesisBlock = (sample_chain_config, replicate 32 0, None),
      NewBlockChain = None, NewProtocolManager = None\<rparr>"

definition sample_service :: btpereum where
  "sample_service = assemble (DefaultConfig 1000000000) sample_store sample_chain_config"

section \<open>Block import\<close>

text \<open>
  Modelled from the spec: \<^verbatim>\<open>BlockChain.InsertChain\<close> is not among the sources; only
  its caller \<^verbatim>\<open>ImportChain\<close> is. The spec: "InsertChain(blocks[]): validates blocks in
  order; for each: resolve parent state, run VerifyHeader, execute body (ProcessBlock),
  compare computed stateRoot/receiptRoot/bloom/gasUsed with header, persist. Returns index
  of first failing block and the error; earlier blocks are committed." The header check
  and the execution of the body are parameters. A chain holds the blocks persisted so far,
  oldest first, and the state reached after each of them, by block hash.
\<close>

record Block =
  block_hash :: Hash
  block_parentHash :: Hash
  block_number :: nat
  block_stateRoot :: Hash
  block_receiptRoot :: Hash
  block_bloom :: "byte list"
  block_gasUsed :: nat
  block_transactions :: "byte list list"

record 'st processed =
  new_state :: 'st
  computed_stateRoot :: Hash
  computed_receiptRoot :: Hash
  computed_bloom :: "byte list"
  computed_gasUsed :: nat

record 'st BlockChain =
  persisted :: "Block list"
  state_after :: "Hash \<rightharpoonup> 'st"

datatype insert_error =
    ErrUnknownAncestor
  | ErrInvalidHeader string
  | ErrExecution string
  | ErrStateRootMismatch
  | ErrReceiptRootMismatch
  | ErrBloomMismatch
  | ErrGasUsedMismatch

text \<open>
  Modelled from the spec: one block of \<^verbatim>\<open>InsertChain\<close>, in the order of the spec's
  sentence: parent state, header, body, comparison of the four computed values with the
  header, persisting.
\<close>

definition insertBlock ::
  "('st BlockChain \<Rightarrow> Block \<Rightarrow> string option) \<Rightarrow> (Block \<Rightarrow> 'st \<Rightarrow> string + 'st processed)
     \<Rightarrow> 'st BlockChain \<Rightarrow> Block \<Rightarrow> insert_error + 'st BlockChain" where
  "insertBlock VerifyHeader ProcessBlock bc b =
     (case state_after bc (block_parentHash b) of
        None \<Rightarrow> Inl ErrUnknownAncestor
      | Some parent \<Rightarrow>
          (case VerifyHeader bc b of
             Some err \<Rightarrow> Inl (ErrInvalidHeader err)
           | None \<Rightarrow>
               (case ProcessBlock b parent of
                  Inl err \<Rightarrow> Inl (ErrExecution err)
                | Inr out \<Rightarrow>
                    if computed_stateRoot out \<noteq> block_stateRoot b then Inl ErrStateRootMismatch
                    else if computed_receiptRoot out \<noteq> block_receiptRoot b
                    then Inl ErrReceiptRootMismatch
                    else if computed_bloom out \<noteq> block_bloom b then Inl ErrBloomMismatch
                    else if computed_gasUsed out \<noteq> block_gasUsed b then Inl ErrGasUsedMismatch
                    else Inr (bc\<lparr>persisted := persisted bc @ [b],
                                 state_after := (state_after bc)(block_hash b \<mapsto> new_state out)\<rparr>))))"

text \<open>
  Modelled from the spec: \<^verbatim>\<open>InsertChain\<close> takes the blocks in order and stops at the
  first that fails, returning the chain as the earlier blocks left it together with the
  index of the failing block and its error; without a failure it returns the chain with
  every block persisted and no error.
\<close>

fun insertFrom ::
  "('st BlockChain \<Rightarrow> Block \<Rightarrow> string option) \<Rightarrow> (Block \<Rightarrow> 'st \<Rightarrow> string + 'st processed)
     \<Rightarrow> nat \<Rightarrow> 'st BlockChain \<Rightarrow> Block list \<Rightarrow> 'st BlockChain \<times> (nat \<times> insert_error) option" where
  "insertFrom VerifyHeader ProcessBlock i bc [] = (bc, None)"
| "insertFrom VerifyHeader ProcessBlock i bc (b # blocks) =
     (case insertBlock VerifyHeader ProcessBlock bc b of
        Inl err \<Rightarrow> (bc, Some (i, err))
      | Inr bc' \<Rightarrow> insertFrom VerifyHeader ProcessBlock (Suc i) bc' blocks)"

definition InsertChain ::
  "('st BlockChain \<Rightarrow> Block \<Rightarrow> string option) \<Rightarrow> (Block \<Rightarrow> 'st \<Rightarrow> string + 'st processed)
     \<Rightarrow> 'st BlockChain \<Rightarrow> Block list \<Rightarrow> 'st BlockChain \<times> (nat \<times> insert_error) option" where
  "InsertChain VerifyHeader ProcessBlock bc blocks =
     insertFrom VerifyHeader ProcessBlock 0 bc blocks"

text \<open>
  A sample: the state is the number of transactions executed so far and its root is that
  number as one byte; a header is valid when its number is the length of the chain; every
  transaction uses 21000 gas. The chain holds the genesis block; of the three blocks that
  follow, the second carries a wrong state root.
\<close>

definition sample_VerifyHeader :: "nat BlockChain \<Rightarrow> Block \<Rightarrow> string option" where
  "sample_VerifyHeader bc b =
     (if block_number b = length (persisted bc) then None else Some ''invalid number'')"

definition sample_ProcessBlock :: "Block \<Rightarrow> nat \<Rightarrow> string + nat processed" where
  "sample_ProcessBlock b st =
     Inr \<lparr>new_state = st + length (block_transactions b),
          computed_stateRoot = [of_nat (st + length (block_transactions b))],
          computed_receiptRoot = [], computed_bloom = [],
          computed_gasUsed = 21000 * length (block_transactions b)\<rparr>"

definition sample_block :: "nat \<Rightarrow> byte \<Rightarrow> byte list list \<Rightarrow> Block" where
  "sample_block n root txs =
     \<lparr>block_hash = [of_nat n], block_parentHash = [of_nat (n - 1)], block_number = n,
      block_stateRoot = [root], block_receiptRoot = [], block_bloom = [],
      block_gasUsed = 21000 * length txs, block_transactions = txs\<rparr>"

definition sample_chain :: "nat BlockChain" where
  "sample_chain =
     \<lparr>persisted = [sample_block 0 0 []], state_after = [[0] \<mapsto> 0]\<rparr>"

definition sample_blocks :: "Block list" where
  "sample_blocks =
     [sample_block 1 2 [[0xaa], [0xbb]], sample_block 2 9 [[0xcc]], sample_block 3 4 [[0xdd]]]"

section \<open>Storage ranges of the debug API\<close>

text \<open>
  Modelled from the spec: the trie, its node iterator and \<^verbatim>\<open>trie.NewIterator\<close> are
  not among the sources. The spec's StateTrie is an "authenticated mapping" with "per-account
  storage sub-tries" that "supports snapshot, commit, and range iteration", over
  "keccak-hashed keys". A trie is the list of its leaves, key and value, in ascending key
  order; the iterator created at a start key yields the leaves whose key is not below the
  start key, in that order; \<^verbatim>\<open>GetKey\<close> gives the preimage of a hashed key when it is
  known.
\<close>

fun bytes_le :: "byte list \<Rightarrow> byte list \<Rightarrow> bool" where
  "bytes_le [] ys = True"
| "bytes_le (x # xs) [] = False"
| "bytes_le (x # xs) (y # ys) = (x < y \<or> (x = y \<and> bytes_le xs ys))"

record Trie =
  leaves :: "(byte list \<times> byte list) list"
  GetKey :: "byte list \<Rightarrow> byte list option"

record Iterator =
  pending :: "(byte list \<times> byte list) list"
  Key :: "byte list"
  Value :: "byte list"

definition leaves_from :: "Trie \<Rightarrow> byte list \<Rightarrow> (byte list \<times> byte list) list" where
  "leaves_from st start = filter (\<lambda>(k, v). bytes_le start k) (leaves st)"

definition NewIterator :: "Trie \<Rightarrow> byte list \<Rightarrow> Iterator" where
  "NewIterator st start = \<lparr>pending = leaves_from st start, Key = [], Value = []\<rparr>"

text \<open>
  \<^verbatim>\<open>it.Next()\<close>: moves to the next leaf and reports whether there was one; at the end
  the key and the value are cleared and every further call reports \<open>False\<close>.
\<close>

definition Next :: "Iterator \<Rightarrow> bool \<times> Iterator" where
  "Next it =
     (case pending it of
        [] \<Rightarrow> (False, it\<lparr>Key := [], Value := []\<rparr>)
      | (k, v) # rest \<Rightarrow> (True, \<lparr>pending = rest, Key = k, Value = v\<rparr>))"

text \<open>
  The result types of \<^verbatim>\<open>storageRangeAt\<close>. The Go map \<^verbatim>\<open>storageMap\<close> is an
  association list with one pair per key: \<open>put\<close>, the assignment \<^verbatim>\<open>m[k] = e\<close> of
  Go, replaces the value of a key that is present and adds the pair otherwise.
\<close>

record storageEntry =
  entry_Key :: "Hash option"
  entry_Value :: Hash

type_synonym storageMap = "(Hash \<times> storageEntry) list"

record StorageRangeResult =
  Storage :: storageMap
  NextKey :: "Hash option"

fun put :: "'k \<Rightarrow> 'v \<Rightarrow> ('k \<times> 'v) list \<Rightarrow> ('k \<times> 'v) list" where
  "put k e [] = [(k, e)]"
| "put k e ((k', e') # m) = (if k' = k then (k, e) # m else (k', e') # put k e m)"

text \<open>
  The loop of \<^verbatim>\<open>storageRangeAt\<close>,
  \<^verbatim>\<open>for i := 0; i < maxResult && it.Next(); i++\<close>: the iterator is advanced only when
  \<open>i < maxResult\<close>; a value that \<^verbatim>\<open>rlp.Split\<close> rejects ends the function with that
  error. \<^verbatim>\<open>rlp.Split\<close> (of which only the content and the error are used) and
  \<^verbatim>\<open>common.BytesToHash\<close> are outside the modelled sources and are parameters.
\<close>

function storage_loop ::
  "(byte list \<Rightarrow> error + byte list) \<Rightarrow> (byte list \<Rightarrow> Hash) \<Rightarrow> Trie \<Rightarrow> int \<Rightarrow> int
     \<Rightarrow> Iterator \<Rightarrow> storageMap \<Rightarrow> error + (Iterator \<times> storageMap)" where
  "storage_loop Split BytesToHash st maxResult i it storage =
     (if i < maxResult then
        (case Next it of
           (False, it') \<Rightarrow> Inr (it', storage)
         | (True, it') \<Rightarrow>
            (case Split (Value it') of
               Inl err \<Rightarrow> Inl err
             | Inr content \<Rightarrow>
                 storage_loop Split BytesToHash st maxResult (i + 1) it'
                   (put (BytesToHash (Key it'))
                      \<lparr>entry_Key = map_option BytesToHash (GetKey st (Key it')),
                       entry_Value = BytesToHash content\<rparr>
                      storage)))
      else Inr (it, storage))"
  by pat_completeness auto
termination
  by (relation "measure (\<lambda>(Split, BytesToHash, st, maxResult, i, it, storage). length (pending it))")
     (auto simp: Next_def split: list.splits)

declare storage_loop.simps [simp del]

text \<open>
  \<^verbatim>\<open>storageRangeAt\<close>: the result and the error, as the Go function returns them. On an
  error the result is the zero \<^verbatim>\<open>StorageRangeResult\<close>. After the loop one more
  \<^verbatim>\<open>it.Next()\<close> decides the next key.
\<close>

definition storageRangeAt ::
  "(byte list \<Rightarrow> error + byte list) \<Rightarrow> (byte list \<Rightarrow> Hash) \<Rightarrow> Trie \<Rightarrow> byte list \<Rightarrow> int
     \<Rightarrow> StorageRangeResult \<times> error option" where
  "storageRangeAt Split BytesToHash st start maxResult =
     (case storage_loop Split BytesToHash st maxResult 0 (NewIterator st start) [] of
        Inl err \<Rightarrow> (\<lparr>Storage = [], NextKey = None\<rparr>, Some err)
      | Inr (it, storage) \<Rightarrow>
          (case Next it of
             (True, it') \<Rightarrow>
               (\<lparr>Storage = storage, NextKey = Some (BytesToHash (Key it'))\<rparr>, None)
           | (False, it') \<Rightarrow> (\<lparr>Storage = storage, NextKey = None\<rparr>, None)))"

text \<open>
  What the loop gathers from a list of leaves, written as a recursion over the list: the
  entries of the leaves, added one after the other, or the error of the first value that
  does not split. The loop is compared with it below.
\<close>

fun collect ::
  "(byte list \<Rightarrow> error + byte list) \<Rightarrow> (byte list \<Rightarrow> Hash) \<Rightarrow> Trie
     \<Rightarrow> (byte list \<times> byte list) list \<Rightarrow> storageMap \<Rightarrow> error + storageMap" where
  "collect Split B st [] storage = Inr storage"
| "collect Split B st ((k, v) # kvs) storage =
     (case Split v of
        Inl err \<Rightarrow> Inl err
      | Inr content \<Rightarrow>
          collect Split B st kvs
            (put (B k) \<lparr>entry_Key = map_option B (GetKey st k), entry_Value = B content\<rparr>
               storage))"

text \<open>
  A storage trie with three leaves (the preimage of the second key is known), and a
  splitter that takes the first byte of a value as its header and fails on the empty value.
\<close>

definition sample_trie :: Trie where
  "sample_trie =
     \<lparr>leaves = [([0x10], [0x81, 0xaa]), ([0x20], [0x81, 0xbb]), ([0x30], [0x81, 0xcc])],
      GetKey = (\<lambda>k. if k = [0x20] then Some [0x02] else None)\<rparr>"

definition sample_Split :: "byte list \<Rightarrow> error + byte list" where
  "sample_Split v =
     (case v of [] \<Rightarrow> Inl (ErrCollaborator ''unexpected EOF'') | t # content \<Rightarrow> Inr content)"

section \<open>ABI packing\<close>











subsection \<open>Parsing\<close>
















section \<open>Properties of the full-node service\<close>

subsection \<open>Field lemmas\<close>

lemma sanitize_keeps [simp]:
  "SyncMode (sanitize env c) = SyncMode c"
  "SkipBcVersionCheck (sanitize env c) = SkipBcVersionCheck c"
  "NetworkId (sanitize env c) = NetworkId c"
  "Miner_ExtraData (sanitize env c) = Miner_ExtraData c"
  by (simp_all add: sanitize_def Let_def)

lemma assemble_fields [simp]:
  "config (assemble c db cfg) = c" "chainDb (assemble c db cfg) = db"
  "chainConfig (assemble c db cfg) = cfg" "calls (assemble c db cfg) = []"
  "lesServer (assemble c db cfg) = False" "inflight (assemble c db cfg) = []"
  by (simp_all add: assemble_def)

lemma invoke_fields [simp]:
  "chainDb (invoke c s) = chainDb s" "chainConfig (invoke c s) = chainConfig s"
  "calls (invoke c s) = calls s @ [c]" "inflight (invoke c s) = inflight s"
  "config (invoke c s) = config s" "lesServer (invoke c s) = lesServer s"
  by (simp_all add: invoke_def)

lemma finishNew_fields [simp]:
  "chainDb (finishNew env s) = chainDb s"
  "chainConfig (finishNew env s) = chainConfig s"
  "calls (finishNew env s) =
     calls s @ [Miner_SetExtra (makeExtraData (MaximumExtraDataSize env) (defaultExtraData env)
                                 (Miner_ExtraData (config s)))]"
  by (simp_all add: finishNew_def invoke_def)

lemma BlockChain_SetHead_fields [simp]:
  "canonical (BlockChain_SetHead n db) = upto_number n (canonical db)"
  "headers (BlockChain_SetHead n db) = upto_number n (headers db)"
  "bodies (BlockChain_SetHead n db) = upto_number n (bodies db)"
  "receipts (BlockChain_SetHead n db) = upto_number n (receipts db)"
  "headNumber (BlockChain_SetHead n db) = min n (headNumber db)"
  "databaseVersion (BlockChain_SetHead n db) = databaseVersion db"
  "chainConfigs (BlockChain_SetHead n db) = chainConfigs db"
  by (simp_all add: BlockChain_SetHead_def)

lemma blockchain_Sbtpead_fields [simp]:
  "chainDb (blockchain_Sbtpead n s) = BlockChain_SetHead n (chainDb s)"
  "calls (blockchain_Sbtpead n s) = calls s @ [BlockChain_Sbtpead n]"
  "inflight (blockchain_Sbtpead n s) = inflight s"
  "chainConfig (blockchain_Sbtpead n s) = chainConfig s"
  by (simp_all add: blockchain_Sbtpead_def)

lemma rawdb_WriteDatabaseVersion_fields [simp]:
  "databaseVersion (chainDb (rawdb_WriteDatabaseVersion v s)) = Some v"
  "calls (rawdb_WriteDatabaseVersion v s) = calls s @ [Rawdb_WriteDatabaseVersion v]"
  "canonical (chainDb (rawdb_WriteDatabaseVersion v s)) = canonical (chainDb s)"
  "headers (chainDb (rawdb_WriteDatabaseVersion v s)) = headers (chainDb s)"
  "bodies (chainDb (rawdb_WriteDatabaseVersion v s)) = bodies (chainDb s)"
  "receipts (chainDb (rawdb_WriteDatabaseVersion v s)) = receipts (chainDb s)"
  "headNumber (chainDb (rawdb_WriteDatabaseVersion v s)) = headNumber (chainDb s)"
  "chainConfig (rawdb_WriteDatabaseVersion v s) = chainConfig s"
  by (simp_all add: rawdb_WriteDatabaseVersion_def WriteDatabaseVersion_def)

lemma rawdb_WriteChainConfig_fields [simp]:
  "chainConfigs (chainDb (rawdb_WriteChainConfig h cfg s)) = (chainConfigs (chainDb s))(h \<mapsto> cfg)"
  "databaseVersion (chainDb (rawdb_WriteChainConfig h cfg s)) = databaseVersion (chainDb s)"
  "calls (rawdb_WriteChainConfig h cfg s) = calls s @ [Rawdb_WriteChainConfig h]"
  "canonical (chainDb (rawdb_WriteChainConfig h cfg s)) = canonical (chainDb s)"
  "headers (chainDb (rawdb_WriteChainConfig h cfg s)) = headers (chainDb s)"
  "bodies (chainDb (rawdb_WriteChainConfig h cfg s)) = bodies (chainDb s)"
  "receipts (chainDb (rawdb_WriteChainConfig h cfg s)) = receipts (chainDb s)"
  "headNumber (chainDb (rawdb_WriteChainConfig h cfg s)) = headNumber (chainDb s)"
  "chainConfig (rawdb_WriteChainConfig h cfg s) = chainConfig s"
  by (simp_all add: rawdb_WriteChainConfig_def WriteChainConfig_def)

lemma rewindOnCompat_compat:
  "rewindOnCompat (Some (ConfigCompatError n)) gh cfg s =
     rawdb_WriteChainConfig gh cfg (blockchain_Sbtpead n s)"
  by (simp add: rewindOnCompat_def)

lemma rewindOnCompat_none: "rewindOnCompat None gh cfg s = s"
  by (simp add: rewindOnCompat_def)

lemma databaseVersion_rewindOnCompat [simp]:
  "databaseVersion (chainDb (rewindOnCompat gerr gh cfg s)) = databaseVersion (chainDb s)"
proof (cases gerr)
  case None
  then show ?thesis by (simp add: rewindOnCompat_none)
next
  case (Some ge)
  then show ?thesis by (cases ge) (simp_all add: rewindOnCompat_def)
qed

lemma calls_rewindOnCompat:
  "calls (rewindOnCompat gerr gh cfg s) =
     calls s @ (case gerr of Some (ConfigCompatError n) \<Rightarrow>
                   [BlockChain_Sbtpead n, Rawdb_WriteChainConfig gh] | _ \<Rightarrow> [])"
  by (simp add: rewindOnCompat_def split: option.splits genesis_error.splits)

lemma upto_number_le: "(num, h) \<in> set (upto_number n xs) \<Longrightarrow> num \<le> n"
  by (simp add: upto_number_def)

lemma upto_number_keeps:
  "(num, h) \<in> set xs \<Longrightarrow> num \<le> n \<Longrightarrow> (num, h) \<in> set (upto_number n xs)"
  by (simp add: upto_number_def)

subsection \<open>The structure of construction\<close>

lemma IsValid_iff: "IsValid m \<longleftrightarrow> m = FullSync \<or> m = FastSync \<or> m = LightSync"
  unfolding IsValid_def FullSync_def FastSync_def LightSync_def by arith

lemma full_fast_pass:
  assumes "SyncMode c = FullSync \<or> SyncMode c = FastSync"
  shows "SyncMode c \<noteq> LightSync" and "IsValid (SyncMode c)"
  using assms by (auto simp: IsValid_iff FullSync_def FastSync_def LightSync_def)

lemma checkBcVersion_cases:
  "checkBcVersion env s =
     (if SkipBcVersionCheck (config s) then Inr s
      else case databaseVersion (chainDb s) of
             None \<Rightarrow> Inr (rawdb_WriteDatabaseVersion (BlockChainVersion env) s)
           | Some v \<Rightarrow>
               if BlockChainVersion env < v
               then Inl (ErrDatabaseVersion v (BlockChainVersion env))
               else if v < BlockChainVersion env
               then Inr (rawdb_WriteDatabaseVersion (BlockChainVersion env) s)
               else Inr s)"
  by (simp add: checkBcVersion_def ReadDatabaseVersion_def Let_def split: option.splits)

lemma New_past_genesis:
  assumes mode: "SyncMode c = FullSync \<or> SyncMode c = FastSync"
      and db: "OpenDatabaseWithFreezer env = Inr db"
      and gen: "SetupGenesisBlock env = (cfg, gh, gerr)"
      and ok: "\<forall>msg. gerr \<noteq> Some (GenesisError msg)"
  shows "New env c =
           (case checkBcVersion env (assemble (sanitize env c) db cfg) of
              Inl err \<Rightarrow> Inl err
            | Inr btp1 \<Rightarrow>
               (case NewBlockChain env of
                  Some err \<Rightarrow> Inl (ErrCollaborator err)
                | None \<Rightarrow>
                   (case NewProtocolManager env of
                      Some err \<Rightarrow> Inl (ErrCollaborator err)
                    | None \<Rightarrow>
                       Inr (finishNew env (invoke BloomIndexer_Start
                              (rewindOnCompat gerr gh cfg btp1))))))"
proof -
  note m = full_fast_pass [OF mode]
  show ?thesis
  proof (cases gerr)
    case None
    show ?thesis using m db gen unfolding None by (simp add: New_def)
  next
    case (Some ge)
    with ok obtain n where "ge = ConfigCompatError n" by (cases ge) auto
    with Some have g: "gerr = Some (ConfigCompatError n)" by simp
    show ?thesis using m db gen unfolding g by (simp add: New_def)
  qed
qed

lemma checkBcVersion_passes:
  assumes "SkipBcVersionCheck (config s) \<or>
           (\<forall>v. databaseVersion (chainDb s) = Some v \<longrightarrow> v \<le> BlockChainVersion env)"
  shows "\<exists>s1. checkBcVersion env s = Inr s1
            \<and> canonical (chainDb s1) = canonical (chainDb s)
            \<and> headers (chainDb s1) = headers (chainDb s)
            \<and> bodies (chainDb s1) = bodies (chainDb s)
            \<and> receipts (chainDb s1) = receipts (chainDb s)
            \<and> headNumber (chainDb s1) = headNumber (chainDb s)
            \<and> chainConfig s1 = chainConfig s
            \<and> (calls s1 = calls s \<or>
                calls s1 = calls s @ [Rawdb_WriteDatabaseVersion (BlockChainVersion env)])"
proof (cases "SkipBcVersionCheck (config s)")
  case True
  then show ?thesis by (simp add: checkBcVersion_cases)
next
  case False
  with assms have le: "\<forall>v. databaseVersion (chainDb s) = Some v \<longrightarrow> v \<le> BlockChainVersion env"
    by simp
  show ?thesis
  proof (cases "databaseVersion (chainDb s)")
    case None
    with False show ?thesis by (simp add: checkBcVersion_cases)
  next
    case (Some v)
    with le have "v \<le> BlockChainVersion env" by simp
    with Some False show ?thesis by (simp add: checkBcVersion_cases)
  qed
qed

lemma New_success_iff:
  assumes mode: "SyncMode c = FullSync \<or> SyncMode c = FastSync"
  shows "(\<exists>s. New env c = Inr s) \<longleftrightarrow> remaining_steps_succeed env c"
  using full_fast_pass [OF mode]
  by (auto simp: New_def remaining_steps_succeed_def checkBcVersion_cases
           split: sum.splits prod.splits option.splits genesis_error.splits)

lemmas sample_defs =
  sample_environment_def sample_store_def sample_chain_config_def sample_service_def
  DefaultConfig_def FullSync_def FastSync_def LightSync_def

subsection \<open>Sync modes at construction\<close>

text \<open>
  C4, as stated, fails: light is a recognized sync mode, yet \<^verbatim>\<open>New\<close> refuses it even
  when every other construction step would succeed.
\<close>

theorem New_light_sync_counterexample:
  "IsValid LightSync
   \<and> remaining_steps_succeed sample_environment
        ((DefaultConfig 1000000000)\<lparr>SyncMode := LightSync\<rparr>)
   \<and> New sample_environment ((DefaultConfig 1000000000)\<lparr>SyncMode := LightSync\<rparr>)
       = Inl ErrLightSync"
proof -
  have "IsValid LightSync"
    by (simp add: IsValid_iff)
  moreover have "remaining_steps_succeed sample_environment
        ((DefaultConfig 1000000000)\<lparr>SyncMode := LightSync\<rparr>)"
    by (simp add: remaining_steps_succeed_def sample_defs)
  moreover have "New sample_environment ((DefaultConfig 1000000000)\<lparr>SyncMode := LightSync\<rparr>)
       = Inl ErrLightSync"
    by (simp add: New_def)
  ultimately show ?thesis by blast
qed

text \<open>
  C4, amended. The recognized sync modes are exactly full, fast and light. Constructing the
  full-node service fails with the light-sync error for light, and with the invalid-mode
  error for every unrecognized value; for full and fast the sync mode check passes, and
  construction succeeds exactly when its remaining steps do.
\<close>

theorem New_sync_mode_check:
  "(IsValid m \<longleftrightarrow> m = FullSync \<or> m = FastSync \<or> m = LightSync)
   \<and> (SyncMode c = LightSync \<longrightarrow> New env c = Inl ErrLightSync)
   \<and> (\<not> IsValid (SyncMode c) \<longrightarrow> New env c = Inl (ErrInvalidSyncMode (SyncMode c)))
   \<and> (SyncMode c = FullSync \<or> SyncMode c = FastSync \<longrightarrow>
        ((\<exists>s. New env c = Inr s) \<longleftrightarrow> remaining_steps_succeed env c))"
proof (intro conjI impI)
  show "IsValid m \<longleftrightarrow> m = FullSync \<or> m = FastSync \<or> m = LightSync"
    by (rule IsValid_iff)
next
  assume "SyncMode c = LightSync"
  then show "New env c = Inl ErrLightSync"
    by (simp add: New_def)
next
  assume inv: "\<not> IsValid (SyncMode c)"
  then have "SyncMode c \<noteq> LightSync"
    by (auto simp: IsValid_iff)
  with inv show "New env c = Inl (ErrInvalidSyncMode (SyncMode c))"
    by (simp add: New_def)
next
  assume "SyncMode c = FullSync \<or> SyncMode c = FastSync"
  then show "(\<exists>s. New env c = Inr s) \<longleftrightarrow> remaining_steps_succeed env c"
    by (rule New_success_iff)
qed

theorem New_sync_mode_check_witness:
  "(\<exists>s. New sample_environment (DefaultConfig 1000000000) = Inr s)
   \<and> (\<exists>s. New sample_environment ((DefaultConfig 1000000000)\<lparr>SyncMode := FullSync\<rparr>) = Inr s)
   \<and> New sample_environment ((DefaultConfig 1000000000)\<lparr>SyncMode := LightSync\<rparr>)
       = Inl ErrLightSync
   \<and> New sample_environment ((DefaultConfig 1000000000)\<lparr>SyncMode := 3\<rparr>)
       = Inl (ErrInvalidSyncMode 3)
   \<and> New sample_environment ((DefaultConfig 1000000000)\<lparr>SyncMode := - 1\<rparr>)
       = Inl (ErrInvalidSyncMode (- 1))"
proof -
  have fast: "\<exists>s. New sample_environment (DefaultConfig 1000000000) = Inr s"
    using New_sync_mode_check [of 0 "DefaultConfig 1000000000" sample_environment]
    by (simp add: remaining_steps_succeed_def sample_defs)
  have full: "\<exists>s. New sample_environment ((DefaultConfig 1000000000)\<lparr>SyncMode := FullSync\<rparr>) = Inr s"
    using New_sync_mode_check
            [of 0 "(DefaultConfig 1000000000)\<lparr>SyncMode := FullSync\<rparr>" sample_environment]
    by (simp add: remaining_steps_succeed_def sample_defs)
  have light: "New sample_environment ((DefaultConfig 1000000000)\<lparr>SyncMode := LightSync\<rparr>)
       = Inl ErrLightSync"
    using New_sync_mode_check
            [of 0 "(DefaultConfig 1000000000)\<lparr>SyncMode := LightSync\<rparr>" sample_environment]
    by simp
  have three: "New sample_environment ((DefaultConfig 1000000000)\<lparr>SyncMode := 3\<rparr>)
       = Inl (ErrInvalidSyncMode 3)"
    using New_sync_mode_check
            [of 0 "(DefaultConfig 1000000000)\<lparr>SyncMode := 3\<rparr>" sample_environment]
    by (simp add: IsValid_def sample_defs)
  have neg: "New sample_environment ((DefaultConfig 1000000000)\<lparr>SyncMode := - 1\<rparr>)
       = Inl (ErrInvalidSyncMode (- 1))"
    using New_sync_mode_check
            [of 0 "(DefaultConfig 1000000000)\<lparr>SyncMode := - 1\<rparr>" sample_environment]
    by (simp add: IsValid_def sample_defs)
  from fast full light three neg show ?thesis by blast
qed

subsection \<open>The database version check\<close>

text \<open>
  C3. On every startup with the version check enabled the node validates the stored database
  version against the supported one. A stored version above the supported one is a fatal
  error: the check, and with it construction, returns the version error. A missing or lower
  stored version is upgraded: the check itself writes the supported version to the database,
  before any later constructor runs, and startup succeeds. The startup meant is one that
  reaches the check (the sync mode is full or fast, the database opens, and the genesis
  set-up reports no error other than an incompatible configuration), and it succeeds when
  the constructors that follow the check (the blockchain and the protocol manager) do. The
  first three conjuncts are about the check on any service, the others about \<^verbatim>\<open>New\<close>.
\<close>

theorem New_database_version_check:
  assumes mode: "SyncMode c = FullSync \<or> SyncMode c = FastSync"
      and check: "\<not> SkipBcVersionCheck c"
      and db: "OpenDatabaseWithFreezer env = Inr db"
      and ok: "\<forall>msg. snd (snd (SetupGenesisBlock env)) \<noteq> Some (GenesisError msg)"
  shows "(\<forall>s v. \<not> SkipBcVersionCheck (config s) \<and> databaseVersion (chainDb s) = Some v
                \<and> BlockChainVersion env < v \<longrightarrow>
            checkBcVersion env s = Inl (ErrDatabaseVersion v (BlockChainVersion env)))
       \<and> (\<forall>s. \<not> SkipBcVersionCheck (config s)
              \<and> (databaseVersion (chainDb s) = None \<or>
                  (\<exists>v. databaseVersion (chainDb s) = Some v \<and> v < BlockChainVersion env)) \<longrightarrow>
            (\<exists>s1. checkBcVersion env s = Inr s1
                 \<and> databaseVersion (chainDb s1) = Some (BlockChainVersion env)
                 \<and> calls s1 = calls s @ [Rawdb_WriteDatabaseVersion (BlockChainVersion env)]))
       \<and> (\<forall>s. \<not> SkipBcVersionCheck (config s)
              \<and> databaseVersion (chainDb s) = Some (BlockChainVersion env) \<longrightarrow>
            checkBcVersion env s = Inr s)
       \<and> (\<forall>v. databaseVersion db = Some v \<and> BlockChainVersion env < v \<longrightarrow>
            New env c = Inl (ErrDatabaseVersion v (BlockChainVersion env)))
       \<and> ((databaseVersion db = None \<or>
             (\<exists>v. databaseVersion db = Some v \<and> v < BlockChainVersion env)) \<and>
            NewBlockChain env = None \<and> NewProtocolManager env = None \<longrightarrow>
            (\<exists>s. New env c = Inr s
                \<and> databaseVersion (chainDb s) = Some (BlockChainVersion env)
                \<and> Rawdb_WriteDatabaseVersion (BlockChainVersion env) \<in> set (calls s)))
       \<and> (databaseVersion db = Some (BlockChainVersion env) \<and>
            NewBlockChain env = None \<and> NewProtocolManager env = None \<longrightarrow>
            (\<exists>s. New env c = Inr s
                \<and> databaseVersion (chainDb s) = Some (BlockChainVersion env)
                \<and> Rawdb_WriteDatabaseVersion (BlockChainVersion env) \<notin> set (calls s)))
       \<and> ((\<forall>v. databaseVersion db = Some v \<longrightarrow> v \<le> BlockChainVersion env) \<longrightarrow>
            (\<forall>a b. New env c \<noteq> Inl (ErrDatabaseVersion a b)))"
proof -
  obtain cfg gh gerr where gen: "SetupGenesisBlock env = (cfg, gh, gerr)"
    by (cases "SetupGenesisBlock env") auto
  with ok have ok': "\<forall>msg. gerr \<noteq> Some (GenesisError msg)" by simp
  note N = New_past_genesis [OF mode db gen ok']
  let ?s0 = "assemble (sanitize env c) db cfg"
  have skip: "\<not> SkipBcVersionCheck (config ?s0)" using check by simp
  have chk_newer: "checkBcVersion env s = Inl (ErrDatabaseVersion v (BlockChainVersion env))"
    if "\<not> SkipBcVersionCheck (config s)" "databaseVersion (chainDb s) = Some v"
       "BlockChainVersion env < v" for s v
    using that by (simp add: checkBcVersion_cases)
  have chk_older: "\<exists>s1. checkBcVersion env s = Inr s1
                 \<and> databaseVersion (chainDb s1) = Some (BlockChainVersion env)
                 \<and> calls s1 = calls s @ [Rawdb_WriteDatabaseVersion (BlockChainVersion env)]"
    if "\<not> SkipBcVersionCheck (config s)"
       "databaseVersion (chainDb s) = None \<or>
        (\<exists>v. databaseVersion (chainDb s) = Some v \<and> v < BlockChainVersion env)" for s
    using that by (auto simp: checkBcVersion_cases)
  have chk_equal: "checkBcVersion env s = Inr s"
    if "\<not> SkipBcVersionCheck (config s)"
       "databaseVersion (chainDb s) = Some (BlockChainVersion env)" for s
    using that by (simp add: checkBcVersion_cases)
  have newer: "New env c = Inl (ErrDatabaseVersion v (BlockChainVersion env))"
    if "databaseVersion db = Some v" "BlockChainVersion env < v" for v
    using that skip by (simp add: N checkBcVersion_cases)
  have older: "\<exists>s. New env c = Inr s
                \<and> databaseVersion (chainDb s) = Some (BlockChainVersion env)
                \<and> Rawdb_WriteDatabaseVersion (BlockChainVersion env) \<in> set (calls s)"
    if v: "databaseVersion db = None \<or>
           (\<exists>v. databaseVersion db = Some v \<and> v < BlockChainVersion env)"
      and rest: "NewBlockChain env = None" "NewProtocolManager env = None"
  proof -
    from v skip have "checkBcVersion env ?s0 =
        Inr (rawdb_WriteDatabaseVersion (BlockChainVersion env) ?s0)"
      by (auto simp: checkBcVersion_cases)
    with rest show ?thesis
      by (simp add: N calls_rewindOnCompat)
  qed
  have equal: "\<exists>s. New env c = Inr s
                \<and> databaseVersion (chainDb s) = Some (BlockChainVersion env)
                \<and> Rawdb_WriteDatabaseVersion (BlockChainVersion env) \<notin> set (calls s)"
    if v: "databaseVersion db = Some (BlockChainVersion env)"
      and rest: "NewBlockChain env = None" "NewProtocolManager env = None"
  proof -
    from v skip have "checkBcVersion env ?s0 = Inr ?s0"
      by (simp add: checkBcVersion_cases)
    with rest v show ?thesis
      by (simp add: N calls_rewindOnCompat split: option.splits genesis_error.splits)
  qed
  have never: "New env c \<noteq> Inl (ErrDatabaseVersion a b)"
    if "\<forall>v. databaseVersion db = Some v \<longrightarrow> v \<le> BlockChainVersion env" for a b
    using that skip
    by (cases "databaseVersion db")
       (auto simp: N checkBcVersion_cases split: option.splits)
  show ?thesis
  proof (intro conjI allI impI)
    fix s :: btpereum and v
    assume "\<not> SkipBcVersionCheck (config s) \<and> databaseVersion (chainDb s) = Some v
            \<and> BlockChainVersion env < v"
    then show "checkBcVersion env s = Inl (ErrDatabaseVersion v (BlockChainVersion env))"
      using chk_newer by blast
  next
    fix s :: btpereum
    assume "\<not> SkipBcVersionCheck (config s)
              \<and> (databaseVersion (chainDb s) = None \<or>
                  (\<exists>v. databaseVersion (chainDb s) = Some v \<and> v < BlockChainVersion env))"
    then show "\<exists>s1. checkBcVersion env s = Inr s1
                 \<and> databaseVersion (chainDb s1) = Some (BlockChainVersion env)
                 \<and> calls s1 = calls s @ [Rawdb_WriteDatabaseVersion (BlockChainVersion env)]"
      using chk_older by blast
  next
    fix s :: btpereum
    assume "\<not> SkipBcVersionCheck (config s)
            \<and> databaseVersion (chainDb s) = Some (BlockChainVersion env)"
    then show "checkBcVersion env s = Inr s"
      using chk_equal by blast
  next
    fix v
    assume "databaseVersion db = Some v \<and> BlockChainVersion env < v"
    then show "New env c = Inl (ErrDatabaseVersion v (BlockChainVersion env))"
      using newer by blast
  next
    assume "(databaseVersion db = None \<or>
             (\<exists>v. databaseVersion db = Some v \<and> v < BlockChainVersion env)) \<and>
            NewBlockChain env = None \<and> NewProtocolManager env = None"
    then show "\<exists>s. New env c = Inr s
                \<and> databaseVersion (chainDb s) = Some (BlockChainVersion env)
                \<and> Rawdb_WriteDatabaseVersion (BlockChainVersion env) \<in> set (calls s)"
      using older by blast
  next
    assume "databaseVersion db = Some (BlockChainVersion env) \<and>
            NewBlockChain env = None \<and> NewProtocolManager env = None"
    then show "\<exists>s. New env c = Inr s
                \<and> databaseVersion (chainDb s) = Some (BlockChainVersion env)
                \<and> Rawdb_WriteDatabaseVersion (BlockChainVersion env) \<notin> set (calls s)"
      using equal by blast
  next
    fix a b
    assume "\<forall>v. databaseVersion db = Some v \<longrightarrow> v \<le> BlockChainVersion env"
    then show "New env c \<noteq> Inl (ErrDatabaseVersion a b)"
      using never by blast
  qed
qed

text \<open>
  The sample database holds version 7 where 8 is supported: construction succeeds and leaves
  version 8. With version 9 stored, construction returns the version error. In the sample
  environment the mode is fast, the check is enabled, the database opens and the genesis
  set-up reports no error, so every hypothesis holds there.
\<close>

theorem New_database_version_check_witness:
  "(SyncMode (DefaultConfig 1000000000) = FastSync
    \<and> \<not> SkipBcVersionCheck (DefaultConfig 1000000000)
    \<and> OpenDatabaseWithFreezer sample_environment = Inr sample_store
    \<and> snd (snd (SetupGenesisBlock sample_environment)) = None)
   \<and> (\<exists>s. New sample_environment (DefaultConfig 1000000000) = Inr s
       \<and> databaseVersion (chainDb s) = Some 8
       \<and> Rawdb_WriteDatabaseVersion 8 \<in> set (calls s))
   \<and> New (sample_environment
            \<lparr>OpenDatabaseWithFreezer := Inr (sample_store\<lparr>databaseVersion := Some 9\<rparr>)\<rparr>)
         (DefaultConfig 1000000000)
       = Inl (ErrDatabaseVersion 9 8)"
proof -
  have h: "SyncMode (DefaultConfig 1000000000) = FastSync
    \<and> \<not> SkipBcVersionCheck (DefaultConfig 1000000000)
    \<and> OpenDatabaseWithFreezer sample_environment = Inr sample_store
    \<and> snd (snd (SetupGenesisBlock sample_environment)) = None"
    by (simp add: sample_defs)
  have a: "\<exists>s. New sample_environment (DefaultConfig 1000000000) = Inr s
       \<and> databaseVersion (chainDb s) = Some 8
       \<and> Rawdb_WriteDatabaseVersion 8 \<in> set (calls s)"
    using New_database_version_check
            [of "DefaultConfig 1000000000" sample_environment sample_store]
    by (simp add: sample_defs)
  have b: "New (sample_environment
            \<lparr>OpenDatabaseWithFreezer := Inr (sample_store\<lparr>databaseVersion := Some 9\<rparr>)\<rparr>)
         (DefaultConfig 1000000000)
       = Inl (ErrDatabaseVersion 9 8)"
    using New_database_version_check
            [of "DefaultConfig 1000000000"
                "sample_environment
                   \<lparr>OpenDatabaseWithFreezer := Inr (sample_store\<lparr>databaseVersion := Some 9\<rparr>)\<rparr>"
                "sample_store\<lparr>databaseVersion := Some 9\<rparr>"]
    by (simp add: sample_defs)
  from h a b show ?thesis by blast
qed

subsection \<open>Rewinding after an incompatible configuration\<close>

text \<open>
  C2. When the node is constructed with a genesis configuration that is incompatible with
  the stored chain configuration (the genesis set-up reports a \<^verbatim>\<open>ConfigCompatError\<close>),
  construction does not fail: the chain is rewound to the error's rewind-to number (the
  canonical index, the headers, the bodies and the receipts above it are dropped, the head
  is at most that number), the new chain configuration is then written under the genesis
  hash, and startup proceeds to a running service. The construction meant is one whose
  other steps succeed (the sync mode is full or fast, the database opens, the database
  version check passes, the blockchain and the protocol manager are constructed). The
  first conjunct is about the rewind step of \<^verbatim>\<open>New\<close> on any service, the second about
  \<^verbatim>\<open>New\<close>.
\<close>

theorem New_rewinds_on_incompatible_config:
  assumes mode: "SyncMode c = FullSync \<or> SyncMode c = FastSync"
      and db: "OpenDatabaseWithFreezer env = Inr db"
      and gen: "SetupGenesisBlock env = (cfg, gh, Some (ConfigCompatError n))"
      and ver: "SkipBcVersionCheck c \<or>
                (\<forall>v. databaseVersion db = Some v \<longrightarrow> v \<le> BlockChainVersion env)"
      and bc: "NewBlockChain env = None"
      and pm: "NewProtocolManager env = None"
  shows "(\<forall>s. chainDb (rewindOnCompat (Some (ConfigCompatError n)) gh cfg s)
                = WriteChainConfig (BlockChain_SetHead n (chainDb s)) gh cfg
              \<and> calls (rewindOnCompat (Some (ConfigCompatError n)) gh cfg s)
                = calls s @ [BlockChain_Sbtpead n, Rawdb_WriteChainConfig gh])
       \<and> (\<exists>s. New env c = Inr s
               \<and> canonical (chainDb s) = upto_number n (canonical db)
               \<and> headers (chainDb s) = upto_number n (headers db)
               \<and> bodies (chainDb s) = upto_number n (bodies db)
               \<and> receipts (chainDb s) = upto_number n (receipts db)
               \<and> headNumber (chainDb s) = min n (headNumber db)
               \<and> chainConfigs (chainDb s) gh = Some cfg
               \<and> chainConfig s = cfg
               \<and> in_order [BlockChain_Sbtpead n, Rawdb_WriteChainConfig gh, BloomIndexer_Start]
                    (calls s))"
proof -
  have ok: "\<forall>msg. Some (ConfigCompatError n) \<noteq> Some (GenesisError msg)" by simp
  note N = New_past_genesis [OF mode db gen ok]
  let ?s0 = "assemble (sanitize env c) db cfg"
  have step: "chainDb (rewindOnCompat (Some (ConfigCompatError n)) gh cfg s)
                = WriteChainConfig (BlockChain_SetHead n (chainDb s)) gh cfg
              \<and> calls (rewindOnCompat (Some (ConfigCompatError n)) gh cfg s)
                = calls s @ [BlockChain_Sbtpead n, Rawdb_WriteChainConfig gh]" for s
    by (simp add: rewindOnCompat_compat rawdb_WriteChainConfig_def blockchain_Sbtpead_def)
  from ver have "SkipBcVersionCheck (config ?s0) \<or>
      (\<forall>v. databaseVersion (chainDb ?s0) = Some v \<longrightarrow> v \<le> BlockChainVersion env)"
    by simp
  from checkBcVersion_passes [OF this]
  obtain s1 where s1: "checkBcVersion env ?s0 = Inr s1"
    and keep: "canonical (chainDb s1) = canonical db" "headers (chainDb s1) = headers db"
      "bodies (chainDb s1) = bodies db" "receipts (chainDb s1) = receipts db"
      "headNumber (chainDb s1) = headNumber db" "chainConfig s1 = cfg"
    and log: "calls s1 = [] \<or> calls s1 = [Rawdb_WriteDatabaseVersion (BlockChainVersion env)]"
    by auto
  let ?s = "finishNew env (invoke BloomIndexer_Start
              (rewindOnCompat (Some (ConfigCompatError n)) gh cfg s1))"
  have order: "in_order [BlockChain_Sbtpead n, Rawdb_WriteChainConfig gh, BloomIndexer_Start]
                 (calls ?s)"
    using log by (auto simp: rewindOnCompat_compat)
  have state: "canonical (chainDb ?s) = upto_number n (canonical db)"
      "headers (chainDb ?s) = upto_number n (headers db)"
      "bodies (chainDb ?s) = upto_number n (bodies db)"
      "receipts (chainDb ?s) = upto_number n (receipts db)"
      "headNumber (chainDb ?s) = min n (headNumber db)"
      "chainConfigs (chainDb ?s) gh = Some cfg"
      "chainConfig ?s = cfg"
    using keep by (simp_all add: rewindOnCompat_compat)
  have good: "New env c = Inr ?s"
    using pm s1 bc by (simp add: N)
  from good order state have "\<exists>s. New env c = Inr s
               \<and> canonical (chainDb s) = upto_number n (canonical db)
               \<and> headers (chainDb s) = upto_number n (headers db)
               \<and> bodies (chainDb s) = upto_number n (bodies db)
               \<and> receipts (chainDb s) = upto_number n (receipts db)
               \<and> headNumber (chainDb s) = min n (headNumber db)
               \<and> chainConfigs (chainDb s) gh = Some cfg
               \<and> chainConfig s = cfg
               \<and> in_order [BlockChain_Sbtpead n, Rawdb_WriteChainConfig gh, BloomIndexer_Start]
                    (calls s)"
    by blast
  with step show ?thesis by blast
qed

text \<open>
  The sample environment with a genesis set-up that reports an incompatibility at block 2:
  the service is constructed, the blocks 0 to 2 remain and the head is block 2.
\<close>

theorem New_rewinds_on_incompatible_config_witness:
  "\<exists>s. New (sample_environment
              \<lparr>SetupGenesisBlock :=
                 (sample_chain_config, replicate 32 0, Some (ConfigCompatError 2))\<rparr>)
           (DefaultConfig 1000000000) = Inr s
     \<and> headers (chainDb s) = [(0, replicate 32 0), (1, replicate 32 1), (2, replicate 32 2)]
     \<and> receipts (chainDb s) = [(1, replicate 32 1), (2, replicate 32 2)]
     \<and> headNumber (chainDb s) = 2
     \<and> chainConfigs (chainDb s) (replicate 32 0) = Some sample_chain_config"
proof -
  let ?env = "sample_environment
                \<lparr>SetupGenesisBlock :=
                   (sample_chain_config, replicate 32 0, Some (ConfigCompatError 2))\<rparr>"
  have mode: "SyncMode (DefaultConfig 1000000000) = FullSync
              \<or> SyncMode (DefaultConfig 1000000000) = FastSync"
    by (simp add: DefaultConfig_def)
  have db: "OpenDatabaseWithFreezer ?env = Inr sample_store"
    by (simp add: sample_environment_def)
  have gen: "SetupGenesisBlock ?env
               = (sample_chain_config, replicate 32 0, Some (ConfigCompatError 2))"
    by simp
  have ver: "SkipBcVersionCheck (DefaultConfig 1000000000) \<or>
             (\<forall>v. databaseVersion sample_store = Some v \<longrightarrow> v \<le> BlockChainVersion ?env)"
    by (simp add: sample_store_def sample_environment_def)
  have bc: "NewBlockChain ?env = None" and pm: "NewProtocolManager ?env = None"
    by (simp_all add: sample_environment_def)
  from New_rewinds_on_incompatible_config [OF mode db gen ver bc pm]
  obtain s where s: "New ?env (DefaultConfig 1000000000) = Inr s"
      "headers (chainDb s) = upto_number 2 (headers sample_store)"
      "receipts (chainDb s) = upto_number 2 (receipts sample_store)"
      "headNumber (chainDb s) = min 2 (headNumber sample_store)"
      "chainConfigs (chainDb s) (replicate 32 0) = Some sample_chain_config"
    by blast
  have "upto_number 2 (headers sample_store)
          = [(0, replicate 32 0), (1, replicate 32 1), (2, replicate 32 2)]"
       "upto_number 2 (receipts sample_store) = [(1, replicate 32 1), (2, replicate 32 2)]"
       "min 2 (headNumber sample_store) = 2"
    by (simp_all add: upto_number_def sample_store_def)
  with s show ?thesis by auto
qed

subsection \<open>The order of shutdown\<close>

text \<open>
  C5, as stated, fails: \<^verbatim>\<open>Stop\<close> does not follow the spec's shutdown sequence. The
  blockchain is stopped second, before the protocol manager (peers and sync), the
  transaction pool and the miner.
\<close>

theorem Stop_spec_order_counterexample:
  "\<not> in_order spec_shutdown_order (calls (Stop sample_service))"
  by (simp add: Stop_def Let_def spec_shutdown_order_def sample_service_def)

text \<open>
  C5, amended. On every shutdown \<^verbatim>\<open>Stop\<close> makes these calls, in this order: close the
  bloom indexer, stop the BlockChain, close the consensus engine, stop the protocol manager
  (peers and sync), stop the LES server when there is one, stop the TxPool, stop the miner,
  stop the event mux, close the chain database and, last, close the shutdown channel. So
  the BlockChain is stopped first of the components the spec names, and the chain database
  is closed after all of them.
\<close>

theorem Stop_call_order:
  "calls (Stop s) =
     calls s @ [BloomIndexer_Close, BlockChain_Stop, Engine_Close, ProtocolManager_Stop]
       @ (if lesServer s then [LesServer_Stop] else [])
       @ [TxPool_Stop, Miner_Stop, EventMux_Stop, ChainDb_Close, ShutdownChan_Close]
   \<and> in_order [BlockChain_Stop, ProtocolManager_Stop, TxPool_Stop, Miner_Stop, ChainDb_Close]
        (drop (length (calls s)) (calls (Stop s)))"
proof -
  have log: "calls (Stop s) =
     calls s @ [BloomIndexer_Close, BlockChain_Stop, Engine_Close, ProtocolManager_Stop]
       @ (if lesServer s then [LesServer_Stop] else [])
       @ [TxPool_Stop, Miner_Stop, EventMux_Stop, ChainDb_Close, ShutdownChan_Close]"
    by (simp add: Stop_def Let_def)
  have "in_order [BlockChain_Stop, ProtocolManager_Stop, TxPool_Stop, Miner_Stop, ChainDb_Close]
        (drop (length (calls s)) (calls (Stop s)))"
    unfolding log by (cases "lesServer s") simp_all
  with log show ?thesis by blast
qed

theorem Stop_call_order_witness:
  "calls (Stop sample_service) =
     [BloomIndexer_Close, BlockChain_Stop, Engine_Close, ProtocolManager_Stop,
      TxPool_Stop, Miner_Stop, EventMux_Stop, ChainDb_Close, ShutdownChan_Close]
   \<and> calls (Stop (sample_service\<lparr>lesServer := True\<rparr>)) =
     [BloomIndexer_Close, BlockChain_Stop, Engine_Close, ProtocolManager_Stop, LesServer_Stop,
      TxPool_Stop, Miner_Stop, EventMux_Stop, ChainDb_Close, ShutdownChan_Close]"
  using Stop_call_order [of sample_service]
        Stop_call_order [of "sample_service\<lparr>lesServer := True\<rparr>"]
  by (simp add: sample_service_def)

subsection \<open>Setting the head through the API backend\<close>

text \<open>
  C6. For every \<^verbatim>\<open>Sbtpead(n)\<close> request through the API backend the in-flight sync is
  cancelled first, which cancels all of the downloader's in-flight requests (none is left),
  and only afterwards is the canonical chain rewound to block \<open>n\<close>: the two calls are
  made in this order, the rewind runs on the state the cancellation left, and afterwards
  the canonical index, the headers, the bodies and the receipts are the former ones without
  the entries numbered above \<open>n\<close>, so none of them holds anything newer than \<open>n\<close>, and
  the head is at most \<open>n\<close>.
\<close>

theorem Sbtpead_cancels_then_rewinds:
  "Sbtpead n b = blockchain_Sbtpead n (downloader_Cancel b)
   \<and> inflight (downloader_Cancel b) = []
   \<and> calls (Sbtpead n b) = calls b @ [Downloader_Cancel, BlockChain_Sbtpead n]
   \<and> inflight (Sbtpead n b) = []
   \<and> canonical (chainDb (Sbtpead n b)) = upto_number n (canonical (chainDb b))
   \<and> headers (chainDb (Sbtpead n b)) = upto_number n (headers (chainDb b))
   \<and> bodies (chainDb (Sbtpead n b)) = upto_number n (bodies (chainDb b))
   \<and> receipts (chainDb (Sbtpead n b)) = upto_number n (receipts (chainDb b))
   \<and> headNumber (chainDb (Sbtpead n b)) = min n (headNumber (chainDb b))
   \<and> (\<forall>num h. (num, h) \<in> set (headers (chainDb (Sbtpead n b))
                             @ bodies (chainDb (Sbtpead n b))
                             @ receipts (chainDb (Sbtpead n b))
                             @ canonical (chainDb (Sbtpead n b))) \<longrightarrow> num \<le> n)"
proof -
  have eq: "Sbtpead n b = blockchain_Sbtpead n (downloader_Cancel b)"
    by (simp add: Sbtpead_def Let_def)
  have c: "inflight (downloader_Cancel b) = []"
      "calls (downloader_Cancel b) = calls b @ [Downloader_Cancel]"
      "chainDb (downloader_Cancel b) = chainDb b"
    by (simp_all add: downloader_Cancel_def)
  have log: "calls (Sbtpead n b) = calls b @ [Downloader_Cancel, BlockChain_Sbtpead n]"
    and idle: "inflight (Sbtpead n b) = []"
    unfolding eq by (simp_all add: c)
  have db: "canonical (chainDb (Sbtpead n b)) = upto_number n (canonical (chainDb b))"
      "headers (chainDb (Sbtpead n b)) = upto_number n (headers (chainDb b))"
      "bodies (chainDb (Sbtpead n b)) = upto_number n (bodies (chainDb b))"
      "receipts (chainDb (Sbtpead n b)) = upto_number n (receipts (chainDb b))"
      "headNumber (chainDb (Sbtpead n b)) = min n (headNumber (chainDb b))"
    unfolding eq by (simp_all add: c)
  have bound: "\<forall>num h. (num, h) \<in> set (headers (chainDb (Sbtpead n b))
                             @ bodies (chainDb (Sbtpead n b))
                             @ receipts (chainDb (Sbtpead n b))
                             @ canonical (chainDb (Sbtpead n b))) \<longrightarrow> num \<le> n"
  proof (intro allI impI)
    fix num h
    assume "(num, h) \<in> set (headers (chainDb (Sbtpead n b)) @ bodies (chainDb (Sbtpead n b))
                         @ receipts (chainDb (Sbtpead n b)) @ canonical (chainDb (Sbtpead n b)))"
    then have "(num, h) \<in> set (upto_number n (headers (chainDb b)))
             \<or> (num, h) \<in> set (upto_number n (bodies (chainDb b)))
             \<or> (num, h) \<in> set (upto_number n (receipts (chainDb b)))
             \<or> (num, h) \<in> set (upto_number n (canonical (chainDb b)))"
      unfolding db by auto
    then show "num \<le> n"
      using upto_number_le by blast
  qed
  show ?thesis
    by (intro conjI) (rule eq c(1) log idle db bound)+
qed

theorem Sbtpead_cancels_then_rewinds_witness:
  "calls (Sbtpead 1 (sample_service\<lparr>inflight := [4, 5, 6]\<rparr>))
     = [Downloader_Cancel, BlockChain_Sbtpead 1]
   \<and> inflight (Sbtpead 1 (sample_service\<lparr>inflight := [4, 5, 6]\<rparr>)) = []
   \<and> headers (chainDb (Sbtpead 1 (sample_service\<lparr>inflight := [4, 5, 6]\<rparr>)))
       = [(0, replicate 32 0), (1, replicate 32 1)]
   \<and> headNumber (chainDb (Sbtpead 1 (sample_service\<lparr>inflight := [4, 5, 6]\<rparr>))) = 1"
proof -
  let ?b = "sample_service\<lparr>inflight := [4, 5, 6]\<rparr>"
  note t = Sbtpead_cancels_then_rewinds [of 1 ?b]
  from t have log: "calls (Sbtpead 1 ?b) = calls ?b @ [Downloader_Cancel, BlockChain_Sbtpead 1]"
    by blast
  from t have idle: "inflight (Sbtpead 1 ?b) = []"
    by blast
  from t have hs: "headers (chainDb (Sbtpead 1 ?b)) = upto_number 1 (headers (chainDb ?b))"
    by blast
  from t have hn: "headNumber (chainDb (Sbtpead 1 ?b)) = min 1 (headNumber (chainDb ?b))"
    by blast
  have before: "calls ?b = []" "headNumber (chainDb ?b) = 3"
      "upto_number 1 (headers (chainDb ?b)) = [(0, replicate 32 0), (1, replicate 32 1)]"
    by (simp_all add: sample_service_def sample_store_def upto_number_def)
  show ?thesis
    unfolding log idle hs hn before by simp
qed

subsection \<open>The chain id of the public API\<close>





section \<open>Properties of the storage range\<close>

lemma length_put: "length (put k e m) \<le> Suc (length m)"
  by (induction m) auto

lemma keys_put: "fst ` set (put k e m) = insert k (fst ` set m)"
proof (induction m)
  case Nil
  show ?case by simp
next
  case (Cons p m)
  obtain k' e' where p: "p = (k', e')" by (cases p)
  show ?case
  proof (cases "k' = k")
    case True
    then show ?thesis by (simp add: p)
  next
    case False
    with Cons.IH show ?thesis by (simp add: p insert_commute)
  qed
qed

lemma collect_ok_iff:
  "(\<exists>m. collect Split B st kvs storage = Inr m) \<longleftrightarrow>
     (\<forall>(k, v) \<in> set kvs. \<exists>c. Split v = Inr c)"
proof (induction kvs arbitrary: storage)
  case Nil
  show ?case by simp
next
  case (Cons kv kvs)
  obtain k v where kv: "kv = (k, v)" by (cases kv)
  show ?case
  proof (cases "Split v")
    case (Inl err)
    then show ?thesis by (simp add: kv)
  next
    case (Inr c)
    then show ?thesis using Cons.IH by (simp add: kv)
  qed
qed

lemma collect_length:
  "collect Split B st kvs storage = Inr m \<Longrightarrow> length m \<le> length storage + length kvs"
proof (induction kvs arbitrary: storage)
  case Nil
  then show ?case by simp
next
  case (Cons kv kvs)
  obtain k v where kv: "kv = (k, v)" by (cases kv)
  from Cons.prems obtain c where c: "Split v = Inr c"
    by (cases "Split v") (auto simp: kv)
  let ?s = "put (B k) \<lparr>entry_Key = map_option B (GetKey st k), entry_Value = B c\<rparr> storage"
  from Cons.prems c have "collect Split B st kvs ?s = Inr m" by (simp add: kv)
  from Cons.IH [OF this] have "length m \<le> length ?s + length kvs" .
  also have "length ?s \<le> Suc (length storage)" by (rule length_put)
  finally show ?case by simp
qed

lemma collect_keys:
  "collect Split B st kvs storage = Inr m \<Longrightarrow>
     fst ` set m = fst ` set storage \<union> B ` fst ` set kvs"
proof (induction kvs arbitrary: storage)
  case Nil
  then show ?case by simp
next
  case (Cons kv kvs)
  obtain k v where kv: "kv = (k, v)" by (cases kv)
  from Cons.prems obtain c where c: "Split v = Inr c"
    by (cases "Split v") (auto simp: kv)
  let ?s = "put (B k) \<lparr>entry_Key = map_option B (GetKey st k), entry_Value = B c\<rparr> storage"
  from Cons.prems c have "collect Split B st kvs ?s = Inr m" by (simp add: kv)
  from Cons.IH [OF this] show ?case by (auto simp: keys_put kv)
qed

text \<open>
  The loop visits the first \<open>maxResult - i\<close> pending leaves (none when that is not
  positive) and leaves the iterator in front of the others.
\<close>

lemma storage_loop_stops:
  "\<not> i < maxResult \<Longrightarrow> storage_loop Split B st maxResult i it storage = Inr (it, storage)"
  by (subst storage_loop.simps) simp

lemma storage_loop_end:
  "i < maxResult \<Longrightarrow> pending it = [] \<Longrightarrow>
     storage_loop Split B st maxResult i it storage = Inr (it\<lparr>Key := [], Value := []\<rparr>, storage)"
  by (subst storage_loop.simps) (simp add: Next_def)

lemma storage_loop_error:
  "i < maxResult \<Longrightarrow> pending it = (k, v) # rest \<Longrightarrow> Split v = Inl err \<Longrightarrow>
     storage_loop Split B st maxResult i it storage = Inl err"
  by (subst storage_loop.simps) (simp add: Next_def)

lemma storage_loop_step:
  "i < maxResult \<Longrightarrow> pending it = (k, v) # rest \<Longrightarrow> Split v = Inr c \<Longrightarrow>
     storage_loop Split B st maxResult i it storage =
       storage_loop Split B st maxResult (i + 1) \<lparr>pending = rest, Key = k, Value = v\<rparr>
         (put (B k) \<lparr>entry_Key = map_option B (GetKey st k), entry_Value = B c\<rparr> storage)"
  by (subst storage_loop.simps) (simp add: Next_def)

lemma storage_loop_collect:
  assumes "pending it = ks"
  shows "(\<forall>err. collect Split B st (take (nat (maxResult - i)) ks) storage = Inl err \<longrightarrow>
            storage_loop Split B st maxResult i it storage = Inl err)
       \<and> (\<forall>m. collect Split B st (take (nat (maxResult - i)) ks) storage = Inr m \<longrightarrow>
            (\<exists>it'. storage_loop Split B st maxResult i it storage = Inr (it', m)
                 \<and> pending it' = drop (nat (maxResult - i)) ks))"
  using assms
proof (induction ks arbitrary: i it storage)
  case Nil
  show ?case
  proof (cases "i < maxResult")
    case True
    with Nil show ?thesis by (simp add: storage_loop_end)
  next
    case False
    with Nil show ?thesis by (simp add: storage_loop_stops)
  qed
next
  case (Cons kv rest)
  obtain k v where kv: "kv = (k, v)" by (cases kv)
  show ?case
  proof (cases "i < maxResult")
    case False
    with Cons.prems show ?thesis by (simp add: storage_loop_stops)
  next
    case True
    then have n: "nat (maxResult - i) = Suc (nat (maxResult - (i + 1)))" by simp
    from Cons.prems have p: "pending it = (k, v) # rest" by (simp add: kv)
    show ?thesis
    proof (cases "Split v")
      case (Inl err)
      from storage_loop_error [where Split = Split and v = v, OF True p Inl] Inl show ?thesis
        by (simp add: n kv)
    next
      case (Inr c)
      let ?it' = "\<lparr>pending = rest, Key = k, Value = v\<rparr>"
      have "pending ?it' = rest" by simp
      from Cons.IH [OF this, of "i + 1"]
        storage_loop_step [where Split = Split and v = v, OF True p Inr] Inr
      show ?thesis
        by (simp add: n kv)
    qed
  qed
qed

lemma storageRangeAt_failure:
  assumes "collect Split B st (take (nat maxResult) (leaves_from st start)) [] = Inl e"
  shows "storageRangeAt Split B st start maxResult = (\<lparr>Storage = [], NextKey = None\<rparr>, Some e)"
proof -
  have "pending (NewIterator st start) = leaves_from st start"
    by (simp add: NewIterator_def)
  from storage_loop_collect [OF this, of Split B st maxResult 0 "[]"] assms
  have "storage_loop Split B st maxResult 0 (NewIterator st start) [] = Inl e"
    by simp
  then show ?thesis
    by (simp add: storageRangeAt_def)
qed

lemma storageRangeAt_success:
  assumes "collect Split B st (take (nat maxResult) (leaves_from st start)) [] = Inr m"
  shows "storageRangeAt Split B st start maxResult =
           (\<lparr>Storage = m,
             NextKey = (case drop (nat maxResult) (leaves_from st start) of
                          [] \<Rightarrow> None | (k, v) # rest \<Rightarrow> Some (B k))\<rparr>, None)"
proof -
  have "pending (NewIterator st start) = leaves_from st start"
    by (simp add: NewIterator_def)
  from storage_loop_collect [OF this, of Split B st maxResult 0 "[]"] assms
  obtain it' where loop: "storage_loop Split B st maxResult 0 (NewIterator st start) [] = Inr (it', m)"
    and rest: "pending it' = drop (nat maxResult) (leaves_from st start)"
    by auto
  show ?thesis
  proof (cases "drop (nat maxResult) (leaves_from st start)")
    case Nil
    with loop rest show ?thesis
      by (simp add: storageRangeAt_def Next_def)
  next
    case (Cons kv more)
    obtain k v where "kv = (k, v)" by (cases kv)
    with Cons loop rest show ?thesis
      by (simp add: storageRangeAt_def Next_def)
  qed
qed

text \<open>
  C9. For every storage trie, start key and bound \<open>maxResult\<close>, a \<^verbatim>\<open>storageRangeAt\<close>
  that returns a result (its error is \<^verbatim>\<open>nil\<close>, which is the case exactly when every
  value it visits splits as RLP) returns at most \<open>maxResult\<close> storage entries (none when
  \<open>maxResult\<close> is not positive), starting from the given key: the entries are keyed by
  the hashes of the keys of the first \<open>maxResult\<close> leaves whose key is not below the
  start key. Its \<^verbatim>\<open>NextKey\<close> is non-nil exactly when the trie holds a further key
  after the returned range, and is then the hash of that key; it is nil when the result
  includes the last key of the trie. When a visited value does not split, the function
  returns the error with the empty result.
\<close>

theorem storageRangeAt_range:
  assumes run: "storageRangeAt Split B st start maxResult = (r, err)"
  shows "(err = None \<longleftrightarrow>
            (\<forall>(k, v) \<in> set (take (nat maxResult) (leaves_from st start)). \<exists>c. Split v = Inr c))
       \<and> (err = None \<longrightarrow>
            length (Storage r) \<le> nat maxResult
          \<and> (0 \<le> maxResult \<longrightarrow> int (length (Storage r)) \<le> maxResult)
          \<and> fst ` set (Storage r) = B ` fst ` set (take (nat maxResult) (leaves_from st start))
          \<and> (NextKey r \<noteq> None \<longleftrightarrow> nat maxResult < length (leaves_from st start))
          \<and> (nat maxResult < length (leaves_from st start) \<longrightarrow>
                NextKey r = Some (B (fst (leaves_from st start ! nat maxResult)))))
       \<and> (err \<noteq> None \<longrightarrow> Storage r = [] \<and> NextKey r = None)
       \<and> (\<forall>(k, v) \<in> set (leaves_from st start). bytes_le start k)"
proof -
  let ?ks = "leaves_from st start"
  let ?n = "nat maxResult"
  have from_start: "\<forall>(k, v) \<in> set ?ks. bytes_le start k"
    by (auto simp: leaves_from_def)
  show ?thesis
  proof (cases "collect Split B st (take ?n ?ks) []")
    case (Inl e)
    from storageRangeAt_failure [OF Inl] run
    have r: "r = \<lparr>Storage = [], NextKey = None\<rparr>" and e: "err = Some e"
      by simp_all
    from Inl have "\<not> (\<exists>m. collect Split B st (take ?n ?ks) [] = Inr m)"
      by simp
    then have "\<not> (\<forall>(k, v) \<in> set (take ?n ?ks). \<exists>c. Split v = Inr c)"
      using collect_ok_iff [of Split B st "take ?n ?ks" "[]"] by blast
    with r e from_start show ?thesis
      by simp
  next
    case (Inr m)
    from storageRangeAt_success [OF Inr] run
    have s: "Storage r = m" and e: "err = None"
      and nk: "NextKey r = (case drop ?n ?ks of [] \<Rightarrow> None | (k, v) # rest \<Rightarrow> Some (B k))"
      by auto
    from Inr have "\<exists>m. collect Split B st (take ?n ?ks) [] = Inr m"
      by blast
    then have all_ok: "\<forall>(k, v) \<in> set (take ?n ?ks). \<exists>c. Split v = Inr c"
      using collect_ok_iff [of Split B st "take ?n ?ks" "[]"] by blast
    from collect_length [OF Inr] have len: "length m \<le> ?n"
      by simp
    then have len': "0 \<le> maxResult \<longrightarrow> int (length m) \<le> maxResult"
      by linarith
    from collect_keys [OF Inr] have keys: "fst ` set m = B ` fst ` set (take ?n ?ks)"
      by simp
    have more: "NextKey r \<noteq> None \<longleftrightarrow> ?n < length ?ks"
    proof (cases "drop ?n ?ks")
      case Nil
      then show ?thesis by (simp add: nk)
    next
      case (Cons kv rest)
      then have "drop ?n ?ks \<noteq> []" by simp
      then have "?n < length ?ks" by simp
      with Cons show ?thesis by (cases kv) (simp add: nk)
    qed
    have which: "NextKey r = Some (B (fst (?ks ! ?n)))" if lt: "?n < length ?ks"
    proof -
      from lt have "drop ?n ?ks = ?ks ! ?n # drop (Suc ?n) ?ks"
        by (simp add: Cons_nth_drop_Suc)
      then show ?thesis
        by (cases "?ks ! ?n") (simp add: nk)
    qed
    from s e all_ok len len' keys more which from_start show ?thesis
      by simp
  qed
qed

text \<open>
  On the sample trie, from the second key on: a bound of 1 returns one entry and the third
  key as the next key; a bound of 5 returns the rest of the trie and no next key.
\<close>

theorem storageRangeAt_range_witness:
  "(\<exists>r. storageRangeAt sample_Split (\<lambda>b. b) sample_trie [0x20] 1 = (r, None)
        \<and> length (Storage r) \<le> 1 \<and> fst ` set (Storage r) = {[0x20]}
        \<and> NextKey r = Some [0x30])
   \<and> (\<exists>r. storageRangeAt sample_Split (\<lambda>b. b) sample_trie [0x20] 5 = (r, None)
        \<and> length (Storage r) \<le> 5 \<and> fst ` set (Storage r) = {[0x20], [0x30]}
        \<and> NextKey r = None)"
proof -
  have ks: "leaves_from sample_trie [0x20] = [([0x20], [0x81, 0xbb]), ([0x30], [0x81, 0xcc])]"
    by (simp add: leaves_from_def sample_trie_def)
  have one: "\<exists>r. storageRangeAt sample_Split (\<lambda>b. b) sample_trie [0x20] 1 = (r, None)
        \<and> length (Storage r) \<le> 1 \<and> fst ` set (Storage r) = {[0x20]}
        \<and> NextKey r = Some [0x30]"
  proof -
    obtain r err where run: "storageRangeAt sample_Split (\<lambda>b. b) sample_trie [0x20] 1 = (r, err)"
      by (cases "storageRangeAt sample_Split (\<lambda>b. b) sample_trie [0x20] 1")
    from storageRangeAt_range [OF run] have "err = None"
      by (simp add: ks sample_Split_def)
    with storageRangeAt_range [OF run] run show ?thesis
      by (simp add: ks)
  qed
  have five: "\<exists>r. storageRangeAt sample_Split (\<lambda>b. b) sample_trie [0x20] 5 = (r, None)
        \<and> length (Storage r) \<le> 5 \<and> fst ` set (Storage r) = {[0x20], [0x30]}
        \<and> NextKey r = None"
  proof -
    obtain r err where run: "storageRangeAt sample_Split (\<lambda>b. b) sample_trie [0x20] 5 = (r, err)"
      by (cases "storageRangeAt sample_Split (\<lambda>b. b) sample_trie [0x20] 5")
    from storageRangeAt_range [OF run] have "err = None"
      by (simp add: ks sample_Split_def)
    with storageRangeAt_range [OF run] run show ?thesis
      by (simp add: ks)
  qed
  from one five show ?thesis by blast
qed

section \<open>Properties of ABI packing\<close>







section \<open>Properties of block import\<close>

lemma insertBlock_persisted:
  "insertBlock V P bc b = Inr bc' \<Longrightarrow> persisted bc' = persisted bc @ [b]"
  by (auto simp: insertBlock_def split: option.splits sum.splits if_splits)

lemma insertFrom_failure:
  "insertFrom V P i bc blocks = (bc', Some (n, e)) \<Longrightarrow>
     i \<le> n \<and> n - i < length blocks
     \<and> insertFrom V P i bc (take (n - i) blocks) = (bc', None)
     \<and> insertBlock V P bc' (blocks ! (n - i)) = Inl e
     \<and> persisted bc' = persisted bc @ take (n - i) blocks"
proof (induction blocks arbitrary: i bc)
  case Nil
  then show ?case by simp
next
  case (Cons b blocks)
  show ?case
  proof (cases "insertBlock V P bc b")
    case (Inl err)
    with Cons.prems have "bc' = bc" "n = i" "e = err" by simp_all
    with Inl show ?thesis by simp
  next
    case (Inr bc1)
    with Cons.prems have run: "insertFrom V P (Suc i) bc1 blocks = (bc', Some (n, e))" by simp
    from Cons.IH [OF run]
    have le: "Suc i \<le> n" and lt: "n - Suc i < length blocks"
      and pre: "insertFrom V P (Suc i) bc1 (take (n - Suc i) blocks) = (bc', None)"
      and bad: "insertBlock V P bc' (blocks ! (n - Suc i)) = Inl e"
      and kept: "persisted bc' = persisted bc1 @ take (n - Suc i) blocks"
      by simp_all
    from le obtain k where k: "n - i = Suc k" "n - Suc i = k"
      by (cases "n - i") auto
    from insertBlock_persisted [OF Inr] kept k
    have "persisted bc' = persisted bc @ take (n - i) (b # blocks)" by simp
    moreover from pre Inr k
    have "insertFrom V P i bc (take (n - i) (b # blocks)) = (bc', None)" by simp
    moreover from bad k have "insertBlock V P bc' ((b # blocks) ! (n - i)) = Inl e" by simp
    moreover from le lt k have "i \<le> n" "n - i < length (b # blocks)" by simp_all
    ultimately show ?thesis by blast
  qed
qed

lemma insertFrom_success:
  "insertFrom V P i bc blocks = (bc', None) \<Longrightarrow> persisted bc' = persisted bc @ blocks"
proof (induction blocks arbitrary: i bc)
  case Nil
  then show ?case by simp
next
  case (Cons b blocks)
  show ?case
  proof (cases "insertBlock V P bc b")
    case (Inl err)
    with Cons.prems show ?thesis by simp
  next
    case (Inr bc1)
    with Cons.prems have "insertFrom V P (Suc i) bc1 blocks = (bc', None)" by simp
    from Cons.IH [OF this] insertBlock_persisted [OF Inr] show ?thesis by simp
  qed
qed

lemma insertFrom_prefix_success:
  "insertFrom V P i bc blocks = (bc', None) \<Longrightarrow> j \<le> length blocks \<Longrightarrow>
     \<exists>bcj. insertFrom V P i bc (take j blocks) = (bcj, None)"
proof (induction blocks arbitrary: i bc j)
  case Nil
  then show ?case by simp
next
  case (Cons b blocks)
  show ?case
  proof (cases j)
    case 0
    then show ?thesis by simp
  next
    case (Suc j')
    show ?thesis
    proof (cases "insertBlock V P bc b")
      case (Inl err)
      with Cons.prems show ?thesis by simp
    next
      case (Inr bc1)
      with Cons.prems have "insertFrom V P (Suc i) bc1 blocks = (bc', None)" by simp
      moreover from Cons.prems Suc have "j' \<le> length blocks" by simp
      ultimately obtain bcj where "insertFrom V P (Suc i) bc1 (take j' blocks) = (bcj, None)"
        using Cons.IH by blast
      with Inr Suc show ?thesis by simp
    qed
  qed
qed

lemma insertFrom_append:
  "insertFrom V P i bc (xs @ ys) =
     (case insertFrom V P i bc xs of
        (bc1, None) \<Rightarrow> insertFrom V P (i + length xs) bc1 ys
      | (bc1, Some f) \<Rightarrow> (bc1, Some f))"
proof (induction xs arbitrary: i bc)
  case Nil
  show ?case by simp
next
  case (Cons x xs)
  show ?case
  proof (cases "insertBlock V P bc x")
    case (Inl err)
    then show ?thesis by simp
  next
    case (Inr bc1)
    with Cons.IH [of "Suc i" bc1] show ?thesis
      by (simp split: prod.splits option.splits)
  qed
qed

lemma insertFrom_each_valid:
  assumes all: "insertFrom V P i bc blocks = (bc', None)" and j: "j < length blocks"
  shows "\<exists>bcj bcj'. insertFrom V P i bc (take j blocks) = (bcj, None)
                   \<and> insertBlock V P bcj (blocks ! j) = Inr bcj'"
proof -
  from insertFrom_prefix_success [OF all, of j] j
  obtain bcj where bcj: "insertFrom V P i bc (take j blocks) = (bcj, None)" by auto
  from insertFrom_prefix_success [OF all, of "Suc j"] j
  obtain bcs where bcs: "insertFrom V P i bc (take (Suc j) blocks) = (bcs, None)" by auto
  from j have "take (Suc j) blocks = take j blocks @ [blocks ! j]"
    by (simp add: take_Suc_conv_app_nth)
  with bcs bcj insertFrom_append [of V P i bc "take j blocks" "[blocks ! j]"]
  have "insertFrom V P (i + length (take j blocks)) bcj [blocks ! j] = (bcs, None)"
    by simp
  then have "insertBlock V P bcj (blocks ! j) = Inr bcs"
    by (cases "insertBlock V P bcj (blocks ! j)") simp_all
  with bcj show ?thesis by blast
qed

text \<open>
  C1. For every list of blocks passed to \<^verbatim>\<open>InsertChain\<close> on top of an existing chain,
  the blocks are validated in order. When a block fails, the call returns the index of the
  first failing block together with its error: every block before that index passed its
  validation on the chain its predecessors left, the block at the index fails on that
  chain with the returned error, and exactly the blocks before the index have been
  committed on top of the existing chain. When no block fails, every block of the list is
  committed, each having passed on the chain its predecessors left.
\<close>

theorem InsertChain_first_failure:
  assumes run: "InsertChain V P bc blocks = (bc', res)"
  shows "(\<forall>n e. res = Some (n, e) \<longrightarrow>
            n < length blocks
          \<and> InsertChain V P bc (take n blocks) = (bc', None)
          \<and> insertBlock V P bc' (blocks ! n) = Inl e
          \<and> persisted bc' = persisted bc @ take n blocks
          \<and> (\<forall>j < n. \<exists>bcj bcj'. InsertChain V P bc (take j blocks) = (bcj, None)
                               \<and> insertBlock V P bcj (blocks ! j) = Inr bcj'))
       \<and> (res = None \<longrightarrow>
            persisted bc' = persisted bc @ blocks
          \<and> (\<forall>j < length blocks. \<exists>bcj bcj'. InsertChain V P bc (take j blocks) = (bcj, None)
                                           \<and> insertBlock V P bcj (blocks ! j) = Inr bcj'))"
proof (intro conjI allI impI)
  fix n e
  assume res: "res = Some (n, e)"
  with run have f: "insertFrom V P 0 bc blocks = (bc', Some (n, e))"
    by (simp add: InsertChain_def)
  from insertFrom_failure [OF f]
  have n: "n < length blocks"
    and pre: "insertFrom V P 0 bc (take n blocks) = (bc', None)"
    and bad: "insertBlock V P bc' (blocks ! n) = Inl e"
    and kept: "persisted bc' = persisted bc @ take n blocks"
    by simp_all
  show "n < length blocks" by (rule n)
  show "InsertChain V P bc (take n blocks) = (bc', None)"
    using pre by (simp add: InsertChain_def)
  show "insertBlock V P bc' (blocks ! n) = Inl e" by (rule bad)
  show "persisted bc' = persisted bc @ take n blocks" by (rule kept)
  fix j
  assume j: "j < n"
  with n have "j < length (take n blocks)" by simp
  from insertFrom_each_valid [OF pre this] j n
  show "\<exists>bcj bcj'. InsertChain V P bc (take j blocks) = (bcj, None)
                 \<and> insertBlock V P bcj (blocks ! j) = Inr bcj'"
    by (simp add: InsertChain_def min_def)
next
  assume "res = None"
  with run have ok: "insertFrom V P 0 bc blocks = (bc', None)"
    by (simp add: InsertChain_def)
  from insertFrom_success [OF ok]
  show "persisted bc' = persisted bc @ blocks" .
  fix j
  assume "j < length blocks"
  from insertFrom_each_valid [OF ok this]
  show "\<exists>bcj bcj'. InsertChain V P bc (take j blocks) = (bcj, None)
                 \<and> insertBlock V P bcj (blocks ! j) = Inr bcj'"
    by (simp add: InsertChain_def)
qed

text \<open>
  On the sample chain the second of the three blocks fails with a state root mismatch: the
  call returns index 1, and the chain holds the genesis block and the first block.
\<close>

theorem InsertChain_first_failure_witness:
  "\<exists>bc'. InsertChain sample_VerifyHeader sample_ProcessBlock sample_chain sample_blocks
           = (bc', Some (1, ErrStateRootMismatch))
       \<and> persisted bc' = [sample_block 0 0 [], sample_block 1 2 [[0xaa], [0xbb]]]"
proof -
  obtain bc' res
    where run: "InsertChain sample_VerifyHeader sample_ProcessBlock sample_chain sample_blocks
                  = (bc', res)"
    by (cases "InsertChain sample_VerifyHeader sample_ProcessBlock sample_chain sample_blocks")
  then have "snd (InsertChain sample_VerifyHeader sample_ProcessBlock sample_chain sample_blocks)
               = res"
    by simp
  then have res: "res = Some (1, ErrStateRootMismatch)"
    by (simp add: InsertChain_def insertBlock_def sample_VerifyHeader_def sample_ProcessBlock_def
          sample_chain_def sample_blocks_def sample_block_def)
  from InsertChain_first_failure [OF run] res
  have "persisted bc' = persisted sample_chain @ take 1 sample_blocks"
    by simp
  then have "persisted bc' = [sample_block 0 0 [], sample_block 1 2 [[0xaa], [0xbb]]]"
    by (simp add: sample_chain_def sample_blocks_def)
  with run res show ?thesis by simp
qed

section \<open>Properties of the miner extra data\<close>

text \<open>
  C7. For every input byte string \<^verbatim>\<open>makeExtraData\<close> returns extra data no longer than
  the cap \<^verbatim>\<open>MaximumExtraDataSize\<close>. An input longer than the cap is replaced by the
  empty extra data; an empty input is replaced by the default version/client encoding
  when that encoding is within the cap (and by the empty extra data otherwise, since the
  size check follows the defaulting); any other input is returned unchanged.
\<close>

theorem makeExtraData_within_cap:
  "length (makeExtraData cap dflt extra) \<le> cap
   \<and> (cap < length extra \<longrightarrow> makeExtraData cap dflt extra = [])
   \<and> (extra = [] \<and> length dflt \<le> cap \<longrightarrow> makeExtraData cap dflt extra = dflt)
   \<and> (extra = [] \<and> cap < length dflt \<longrightarrow> makeExtraData cap dflt extra = [])
   \<and> (extra \<noteq> [] \<and> length extra \<le> cap \<longrightarrow> makeExtraData cap dflt extra = extra)"
proof (cases "extra = []")
  case True
  then show ?thesis
    by (cases "cap < length dflt") (simp_all add: makeExtraData_def Let_def)
next
  case False
  then show ?thesis
    by (cases "cap < length extra") (simp_all add: makeExtraData_def Let_def)
qed

text \<open>
  The default below is the encoding of \<^verbatim>\<open>[0x010904, "gbtp", "go1.13.4", "linux"]\<close>
  (25 bytes); the cap is 32.
\<close>

theorem makeExtraData_within_cap_witness:
  "makeExtraData 32
      [0xd8, 0x83, 0x01, 0x09, 0x04, 0x84, 0x67, 0x62, 0x74, 0x70, 0x88, 0x67, 0x6f, 0x31,
       0x2e, 0x31, 0x33, 0x2e, 0x34, 0x85, 0x6c, 0x69, 0x6e, 0x75, 0x78] []
     = [0xd8, 0x83, 0x01, 0x09, 0x04, 0x84, 0x67, 0x62, 0x74, 0x70, 0x88, 0x67, 0x6f, 0x31,
        0x2e, 0x31, 0x33, 0x2e, 0x34, 0x85, 0x6c, 0x69, 0x6e, 0x75, 0x78]
   \<and> makeExtraData 32 [0xc0] (replicate 33 0x61) = []
   \<and> makeExtraData 2 [0xc2, 0x01, 0x02] [] = []
   \<and> makeExtraData 32 [0xc0] [0x68, 0x69] = [0x68, 0x69]"
proof -
  let ?d = "[0xd8, 0x83, 0x01, 0x09, 0x04, 0x84, 0x67, 0x62, 0x74, 0x70, 0x88, 0x67, 0x6f, 0x31,
       0x2e, 0x31, 0x33, 0x2e, 0x34, 0x85, 0x6c, 0x69, 0x6e, 0x75, 0x78] :: byte list"
  have a: "makeExtraData 32 ?d [] = ?d"
    using makeExtraData_within_cap [of 32 ?d "[]"] by simp
  have b: "makeExtraData 32 [0xc0] (replicate 33 0x61) = []"
    using makeExtraData_within_cap [of 32 "[0xc0]" "replicate 33 0x61"] by simp
  have c: "makeExtraData 2 [0xc2, 0x01, 0x02] [] = []"
    using makeExtraData_within_cap [of 2 "[0xc2, 0x01, 0x02]" "[]"] by simp
  have d: "makeExtraData 32 [0xc0] [0x68, 0x69] = [0x68, 0x69]"
    using makeExtraData_within_cap [of 32 "[0xc0]" "[0x68, 0x69]"] by simp
  from a b c d show ?thesis by blast
qed

end
